theory Spec2Isabelle
  imports Main "HOL-Library.Word"
begin

unbundle bit_operations_syntax

section \<open>Shared types of the I/O pipeline and the device scheduler\<close>

text \<open>
  Modelled from the spec: the enumerations \<open>zio_priority_t\<close>, \<open>zio_type_t\<close> and
  \<open>enum zio_flag\<close> are declared in \<open>sys/zio.h\<close>, which is not part of the source
  tree at hand.  The six queueable priority classes are listed in the order the
  scheduler comment of \<open>vdev_queue.c\<close> and section 4.4 of the specification give
  (sync read, sync write, async read, async write, scrub, trim); the two further
  enumerators are the ones \<open>vdev_queue.c\<close> and \<open>zio.c\<close> mention
  (\<open>ZIO_PRIORITY_NUM_QUEUEABLE\<close>, \<open>ZIO_PRIORITY_NOW\<close>).  The I/O types follow
  the table \<open>zio_type_name\<close> of \<open>zio.c\<close>.
\<close>

datatype zio_priority =
    ZIO_PRIORITY_SYNC_READ
  | ZIO_PRIORITY_SYNC_WRITE
  | ZIO_PRIORITY_ASYNC_READ
  | ZIO_PRIORITY_ASYNC_WRITE
  | ZIO_PRIORITY_SCRUB
  | ZIO_PRIORITY_TRIM
  | ZIO_PRIORITY_NUM_QUEUEABLE
  | ZIO_PRIORITY_NOW

fun priority_index :: "zio_priority \<Rightarrow> nat" where
  "priority_index ZIO_PRIORITY_SYNC_READ = 0"
| "priority_index ZIO_PRIORITY_SYNC_WRITE = 1"
| "priority_index ZIO_PRIORITY_ASYNC_READ = 2"
| "priority_index ZIO_PRIORITY_ASYNC_WRITE = 3"
| "priority_index ZIO_PRIORITY_SCRUB = 4"
| "priority_index ZIO_PRIORITY_TRIM = 5"
| "priority_index ZIO_PRIORITY_NUM_QUEUEABLE = 6"
| "priority_index ZIO_PRIORITY_NOW = 7"

text \<open>The range of \<open>for (p = 0; p < ZIO_PRIORITY_NUM_QUEUEABLE; p++)\<close>.\<close>

definition queueable_classes :: "zio_priority list" where
  "queueable_classes =
     [ZIO_PRIORITY_SYNC_READ, ZIO_PRIORITY_SYNC_WRITE, ZIO_PRIORITY_ASYNC_READ,
      ZIO_PRIORITY_ASYNC_WRITE, ZIO_PRIORITY_SCRUB, ZIO_PRIORITY_TRIM]"

datatype zio_type =
    ZIO_TYPE_NULL
  | ZIO_TYPE_READ
  | ZIO_TYPE_WRITE
  | ZIO_TYPE_FREE
  | ZIO_TYPE_CLAIM
  | ZIO_TYPE_IOCTL

text \<open>
  The flag word \<open>io_flags\<close> is a set of flags: \<open>|=\<close> is union, \<open>&= ~\<close> is set
  difference and a test \<open>flags & F\<close> is membership.  The mask
  \<open>ZIO_FLAG_AGG_INHERIT\<close> is a parameter of the functions that use it.
\<close>

datatype zio_flag =
    ZIO_FLAG_DONT_AGGREGATE
  | ZIO_FLAG_IO_REPAIR
  | ZIO_FLAG_SELF_HEAL
  | ZIO_FLAG_RESILVER
  | ZIO_FLAG_SCRUB
  | ZIO_FLAG_SCAN_THREAD
  | ZIO_FLAG_CANFAIL
  | ZIO_FLAG_SPECULATIVE
  | ZIO_FLAG_CONFIG_WRITER
  | ZIO_FLAG_DONT_RETRY
  | ZIO_FLAG_DONT_CACHE
  | ZIO_FLAG_NODATA
  | ZIO_FLAG_INDUCE_DAMAGE
  | ZIO_FLAG_IO_RETRY
  | ZIO_FLAG_OPTIONAL
  | ZIO_FLAG_DONT_QUEUE
  | ZIO_FLAG_DONT_PROPAGATE
  | ZIO_FLAG_IO_BYPASS
  | ZIO_FLAG_IO_REWRITE
  | ZIO_FLAG_GANG_CHILD
  | ZIO_FLAG_DDT_CHILD
  | ZIO_FLAG_GODFATHER
  | ZIO_FLAG_NOPWRITE
  | ZIO_FLAG_REEXECUTED
  | ZIO_FLAG_DELEGATED

section \<open>Device scheduler: tunables and per-class limits (vdev\_queue.c)\<close>

text \<open>
  The global tunables of \<open>vdev_queue.c\<close>.  The \<open>uint32_t\<close> and \<open>int\<close>
  variables are 32-bit words; \<open>zfs_dirty_data_max\<close> (\<open>uint64_t\<close>, defined in
  \<open>dsl_pool.c\<close>, outside the source tree at hand) is carried along as one more field.
\<close>

record tunables =
  zfs_vdev_max_active :: "32 word"
  zfs_vdev_sync_read_min_active :: "32 word"
  zfs_vdev_sync_read_max_active :: "32 word"
  zfs_vdev_sync_write_min_active :: "32 word"
  zfs_vdev_sync_write_max_active :: "32 word"
  zfs_vdev_async_read_min_active :: "32 word"
  zfs_vdev_async_read_max_active :: "32 word"
  zfs_vdev_async_write_min_active :: "32 word"
  zfs_vdev_async_write_max_active :: "32 word"
  zfs_vdev_scrub_min_active :: "32 word"
  zfs_vdev_scrub_max_active :: "32 word"
  zfs_vdev_trim_min_active :: "32 word"
  zfs_vdev_trim_max_active :: "32 word"
  zfs_vdev_async_write_active_min_dirty_percent :: "32 word"
  zfs_vdev_async_write_active_max_dirty_percent :: "32 word"
  zfs_vdev_aggregation_limit :: "32 word"
  zfs_vdev_read_gap_limit :: "32 word"
  zfs_vdev_write_gap_limit :: "32 word"
  zfs_dirty_data_max :: "64 word"

text \<open>
  The initialisers of \<open>vdev_queue.c\<close>; the aggregation limit
  (\<open>SPA_MAXBLOCKSIZE\<close>) and \<open>zfs_dirty_data_max\<close> come from elsewhere and are
  arguments.
\<close>

definition default_tunables :: "32 word \<Rightarrow> 64 word \<Rightarrow> tunables" where
  "default_tunables maxblocksize dirty_max =
     \<lparr> zfs_vdev_max_active = 1000,
       zfs_vdev_sync_read_min_active = 10,
       zfs_vdev_sync_read_max_active = 10,
       zfs_vdev_sync_write_min_active = 10,
       zfs_vdev_sync_write_max_active = 10,
       zfs_vdev_async_read_min_active = 1,
       zfs_vdev_async_read_max_active = 3,
       zfs_vdev_async_write_min_active = 1,
       zfs_vdev_async_write_max_active = 10,
       zfs_vdev_scrub_min_active = 1,
       zfs_vdev_scrub_max_active = 2,
       zfs_vdev_trim_min_active = 1,
       zfs_vdev_trim_max_active = 64,
       zfs_vdev_async_write_active_min_dirty_percent = 30,
       zfs_vdev_async_write_active_max_dirty_percent = 60,
       zfs_vdev_aggregation_limit = maxblocksize,
       zfs_vdev_read_gap_limit = 32768,
       zfs_vdev_write_gap_limit = 4096,
       zfs_dirty_data_max = dirty_max \<rparr>"

text \<open>
  What the scheduler reads of the pool: \<open>spa->spa_dsl_pool->dp_dirty_total\<close> and the
  answer of \<open>spa_has_pending_synctask(spa)\<close>.
\<close>

record spa =
  dp_dirty_total :: "64 word"
  spa_has_pending_synctask :: bool

text \<open>
  \<open>vdev_queue_class_min_active\<close>: the \<open>int\<close> result carries the bits of the
  \<open>uint32_t\<close> tunable; \<open>None\<close> is the \<open>panic("invalid priority")\<close> of the
  default case.
\<close>

fun vdev_queue_class_min_active :: "tunables \<Rightarrow> zio_priority \<Rightarrow> 32 word option" where
  "vdev_queue_class_min_active tn ZIO_PRIORITY_SYNC_READ = Some (zfs_vdev_sync_read_min_active tn)"
| "vdev_queue_class_min_active tn ZIO_PRIORITY_SYNC_WRITE = Some (zfs_vdev_sync_write_min_active tn)"
| "vdev_queue_class_min_active tn ZIO_PRIORITY_ASYNC_READ = Some (zfs_vdev_async_read_min_active tn)"
| "vdev_queue_class_min_active tn ZIO_PRIORITY_ASYNC_WRITE = Some (zfs_vdev_async_write_min_active tn)"
| "vdev_queue_class_min_active tn ZIO_PRIORITY_SCRUB = Some (zfs_vdev_scrub_min_active tn)"
| "vdev_queue_class_min_active tn ZIO_PRIORITY_TRIM = Some (zfs_vdev_trim_min_active tn)"
| "vdev_queue_class_min_active tn _ = None"

text \<open>
  \<open>vdev_queue_max_async_writes\<close>.  \<open>min_bytes\<close> and \<open>max_bytes\<close> are computed in
  \<open>uint64_t\<close> (the \<open>int\<close> percentage is sign-extended), the interpolation is
  computed in \<open>uint64_t\<close> (the difference of the two \<open>uint32_t\<close> bounds wraps in
  32 bits first) and truncated to the \<open>int\<close> \<open>writes\<close>.  \<open>None\<close> is the
  division trap when \<open>max_bytes = min_bytes\<close>.
\<close>

definition async_write_min_bytes :: "tunables \<Rightarrow> 64 word" where
  "async_write_min_bytes tn =
     (zfs_dirty_data_max tn * scast (zfs_vdev_async_write_active_min_dirty_percent tn)) div 100"

definition async_write_max_bytes :: "tunables \<Rightarrow> 64 word" where
  "async_write_max_bytes tn =
     (zfs_dirty_data_max tn * scast (zfs_vdev_async_write_active_max_dirty_percent tn)) div 100"

definition vdev_queue_max_async_writes :: "tunables \<Rightarrow> spa \<Rightarrow> 32 word option" where
  "vdev_queue_max_async_writes tn sp =
     (let dirty = dp_dirty_total sp;
          min_bytes = async_write_min_bytes tn;
          max_bytes = async_write_max_bytes tn
      in if spa_has_pending_synctask sp then Some (zfs_vdev_async_write_max_active tn)
         else if dirty < min_bytes then Some (zfs_vdev_async_write_min_active tn)
         else if dirty > max_bytes then Some (zfs_vdev_async_write_max_active tn)
         else if max_bytes - min_bytes = 0 then None
         else Some (ucast
           ((dirty - min_bytes) *
              ucast (zfs_vdev_async_write_max_active tn - zfs_vdev_async_write_min_active tn)
              div (max_bytes - min_bytes)
            + ucast (zfs_vdev_async_write_min_active tn) :: 64 word)))"

fun vdev_queue_class_max_active :: "tunables \<Rightarrow> spa \<Rightarrow> zio_priority \<Rightarrow> 32 word option" where
  "vdev_queue_class_max_active tn sp ZIO_PRIORITY_SYNC_READ = Some (zfs_vdev_sync_read_max_active tn)"
| "vdev_queue_class_max_active tn sp ZIO_PRIORITY_SYNC_WRITE = Some (zfs_vdev_sync_write_max_active tn)"
| "vdev_queue_class_max_active tn sp ZIO_PRIORITY_ASYNC_READ = Some (zfs_vdev_async_read_max_active tn)"
| "vdev_queue_class_max_active tn sp ZIO_PRIORITY_ASYNC_WRITE = vdev_queue_max_async_writes tn sp"
| "vdev_queue_class_max_active tn sp ZIO_PRIORITY_SCRUB = Some (zfs_vdev_scrub_max_active tn)"
| "vdev_queue_class_max_active tn sp ZIO_PRIORITY_TRIM = Some (zfs_vdev_trim_max_active tn)"
| "vdev_queue_class_max_active tn sp _ = None"


section \<open>The request record\<close>

text \<open>
  Modelled from the spec: \<open>zio_t\<close>, \<open>enum zio_child\<close>, \<open>enum zio_wait_type\<close>,
  the reexecute bits and \<open>blkptr_t\<close> are declared in headers (\<open>sys/zio.h\<close>,
  \<open>sys/spa.h\<close>) that are not part of the source tree at hand.  The record below
  has the fields of the "I/O Request" of section 3 of the specification that
  \<open>zio.c\<close> and \<open>vdev_queue.c\<close> read and write, under the names the code uses.
  Child types are listed in the order
  \<open>ASSERT(cio->io_child_type <= pio->io_child_type)\<close> of \<open>zio_add_child\<close>
  requires (vdev, gang, ddt, logical).  A pointer to a request is its address
  \<open>io_id\<close>; a \<open>zio_link_t\<close> is a numbered pair of parent and child address.
  The cursor \<open>io_walk_link\<close> of \<open>zio_walk_parents\<close> and
  \<open>zio_walk_children\<close> is not a field: every walk in the modelled code starts
  with the cursor at \<open>NULL\<close> and runs to the end of the list (as the note above
  \<open>zio_walk_parents\<close> demands), so a walk is a recursion over the list.
\<close>

datatype zio_child = ZIO_CHILD_VDEV | ZIO_CHILD_GANG | ZIO_CHILD_DDT | ZIO_CHILD_LOGICAL

datatype zio_wait_type = ZIO_WAIT_READY | ZIO_WAIT_DONE

datatype zio_reexecute = ZIO_REEXECUTE_NOW | ZIO_REEXECUTE_SUSPEND

datatype zio_done_func = VDEV_QUEUE_AGG_IO_DONE | DONE_FUNC nat

text \<open>
  Of a block pointer the model keeps which block it names (\<open>blk_ident\<close>, standing
  for the DVAs), its birth transaction group, and the value of the macro
  \<open>BP_IS_HOLE\<close>.
\<close>

record blkptr =
  blk_ident :: nat
  blk_birth :: "64 word"
  bp_is_hole :: bool

text \<open>
  \<open>zio_gang_node_t\<close>: for each slot \<open>g\<close> of the gang header the block pointer
  \<open>gn_gbh->zg_blkptr[g]\<close> and the child node \<open>gn_child[g]\<close> (\<open>None\<close> is
  \<open>NULL\<close>); a node of the code has \<open>SPA_GBH_NBLKPTRS\<close> slots.
\<close>

datatype zio_gang_node =
  Gang_Node (gn_slots: "(blkptr \<times> zio_gang_node option) list")

record zio_link =
  zl_id :: nat
  zl_parent :: nat
  zl_child :: nat

text \<open>The write properties \<open>zio_prop_t\<close> the modelled stages read.\<close>

record zio_prop =
  zp_checksum :: nat
  zp_copies :: nat
  zp_dedup :: bool
  zp_dedup_verify :: bool

record zio =
  io_id :: nat
  io_type :: zio_type
  io_priority :: zio_priority
  io_child_type :: zio_child
  io_flags :: "zio_flag set"
  io_orig_flags :: "zio_flag set"
  io_stage :: "32 word"
  io_pipeline :: "32 word"
  io_orig_stage :: "32 word"
  io_orig_pipeline :: "32 word"
  io_offset :: "64 word"
  io_size :: "64 word"
  io_timestamp :: "64 word"
  io_error :: int
  io_child_error :: "zio_child \<Rightarrow> int"
  io_children :: "zio_child \<Rightarrow> zio_wait_type \<Rightarrow> 64 word"
  io_state :: "zio_wait_type \<Rightarrow> bool"
  io_stall :: "(zio_child \<times> zio_wait_type) option"
  io_reexecute :: "zio_reexecute set"
  io_parent_list :: "zio_link list"
  io_child_list :: "zio_link list"
  io_parent_count :: "32 word"
  io_child_count :: "32 word"
  io_prop :: zio_prop
  io_gang_leader :: "nat option"
  io_gang_tree :: "zio_gang_node option"
  io_bp :: "blkptr option"
  io_bp_override :: "blkptr option"
  io_logical :: "nat option"
  io_vd :: "nat option"
  io_done :: "zio_done_func option"
  io_waiter :: bool
  io_executor :: bool

text \<open>The request after \<open>bzero(zio, sizeof (zio_t))\<close> in \<open>zio_create\<close>.\<close>

definition zio_zero :: zio where
  "zio_zero =
     \<lparr> io_id = 0, io_type = ZIO_TYPE_NULL, io_priority = ZIO_PRIORITY_SYNC_READ,
       io_child_type = ZIO_CHILD_VDEV, io_flags = {}, io_orig_flags = {},
       io_stage = 0, io_pipeline = 0, io_orig_stage = 0, io_orig_pipeline = 0,
       io_offset = 0, io_size = 0, io_timestamp = 0, io_error = 0,
       io_child_error = (\<lambda>c. 0), io_children = (\<lambda>c w. 0), io_state = (\<lambda>w. False),
       io_stall = None, io_reexecute = {}, io_parent_list = [], io_child_list = [],
       io_parent_count = 0, io_child_count = 0,
       io_prop = \<lparr> zp_checksum = 0, zp_copies = 0, zp_dedup = False, zp_dedup_verify = False \<rparr>,
       io_gang_leader = None, io_gang_tree = None, io_bp = None, io_bp_override = None,
       io_logical = None, io_vd = None, io_done = None, io_waiter = False,
       io_executor = False \<rparr>"

section \<open>Device scheduler: the queue (vdev\_queue.c)\<close>

text \<open>
  \<open>vdev_queue_class_t\<close> and \<open>vdev_queue_t\<close> (declared in \<open>sys/vdev_impl.h\<close>):
  the AVL trees are lists kept in the order of their comparison function, so
  \<open>avl_numnodes\<close> is \<open>length\<close>, \<open>AVL_NEXT\<close> and \<open>AVL_PREV\<close> are the
  neighbours in the list.
\<close>

record vdev_queue_class =
  vqc_active :: "32 word"
  vqc_queued_tree :: "zio list"

record vdev_queue =
  vq_class :: "zio_priority \<Rightarrow> vdev_queue_class"
  vq_active_tree :: "zio list"
  vq_last_offset :: "64 word"

text \<open>
  The two loops of \<open>vdev_queue_class_to_issue\<close> over the queueable classes.
  The outer \<open>None\<close> is a panic or trap inside the loop, \<open>Some None\<close> is the loop
  running to its end, \<open>Some (Some p)\<close> is \<open>return (p)\<close>.  The \<open>&&\<close> evaluates
  the class limit only when the class has queued requests.
\<close>

fun issue_below_min :: "tunables \<Rightarrow> vdev_queue \<Rightarrow> zio_priority list \<Rightarrow> zio_priority option option" where
  "issue_below_min tn vq [] = Some None"
| "issue_below_min tn vq (p # ps) =
     (if length (vqc_queued_tree (vq_class vq p)) > 0 then
        (case vdev_queue_class_min_active tn p of
           None \<Rightarrow> None
         | Some m \<Rightarrow>
             if vqc_active (vq_class vq p) < m then Some (Some p)
             else issue_below_min tn vq ps)
      else issue_below_min tn vq ps)"

fun issue_below_max :: "tunables \<Rightarrow> spa \<Rightarrow> vdev_queue \<Rightarrow> zio_priority list \<Rightarrow> zio_priority option option" where
  "issue_below_max tn sp vq [] = Some None"
| "issue_below_max tn sp vq (p # ps) =
     (if length (vqc_queued_tree (vq_class vq p)) > 0 then
        (case vdev_queue_class_max_active tn sp p of
           None \<Rightarrow> None
         | Some m \<Rightarrow>
             if vqc_active (vq_class vq p) < m then Some (Some p)
             else issue_below_max tn sp vq ps)
      else issue_below_max tn sp vq ps)"

text \<open>
  \<open>vdev_queue_class_to_issue\<close>: \<open>ZIO_PRIORITY_NUM_QUEUEABLE\<close> is the answer
  "no eligible class"; \<open>None\<close> is a panic or trap.
\<close>

definition vdev_queue_class_to_issue :: "tunables \<Rightarrow> spa \<Rightarrow> vdev_queue \<Rightarrow> zio_priority option" where
  "vdev_queue_class_to_issue tn sp vq =
     (if length (vq_active_tree vq) \<ge> unat (zfs_vdev_max_active tn)
      then Some ZIO_PRIORITY_NUM_QUEUEABLE
      else case issue_below_min tn vq queueable_classes of
             None \<Rightarrow> None
           | Some (Some p) \<Rightarrow> Some p
           | Some None \<Rightarrow>
               (case issue_below_max tn sp vq queueable_classes of
                  None \<Rightarrow> None
                | Some (Some p) \<Rightarrow> Some p
                | Some None \<Rightarrow> Some ZIO_PRIORITY_NUM_QUEUEABLE))"

text \<open>The two tests of the loops, as predicates on a class.\<close>

definition below_min :: "tunables \<Rightarrow> vdev_queue \<Rightarrow> zio_priority \<Rightarrow> bool" where
  "below_min tn vq p \<longleftrightarrow>
     vqc_queued_tree (vq_class vq p) \<noteq> [] \<and>
     (case vdev_queue_class_min_active tn p of
        None \<Rightarrow> False | Some m \<Rightarrow> vqc_active (vq_class vq p) < m)"

definition below_max :: "tunables \<Rightarrow> spa \<Rightarrow> vdev_queue \<Rightarrow> zio_priority \<Rightarrow> bool" where
  "below_max tn sp vq p \<longleftrightarrow>
     vqc_queued_tree (vq_class vq p) \<noteq> [] \<and>
     (case vdev_queue_class_max_active tn sp p of
        None \<Rightarrow> False | Some m \<Rightarrow> vqc_active (vq_class vq p) < m)"

text \<open>
  \<open>highest_priority P r\<close>: \<open>r\<close> is the queueable class of highest priority
  (lowest number) that satisfies \<open>P\<close>.
\<close>

definition highest_priority :: "(zio_priority \<Rightarrow> bool) \<Rightarrow> zio_priority \<Rightarrow> bool" where
  "highest_priority P r \<longleftrightarrow>
     r \<in> set queueable_classes \<and> P r \<and>
     (\<forall>q \<in> set queueable_classes. priority_index q < priority_index r \<longrightarrow> \<not> P q)"

section \<open>Concrete inputs\<close>

text \<open>The default tunables with 128 KiB blocks and a 4 GiB dirty-data budget.\<close>

definition example_tunables :: tunables where
  "example_tunables = default_tunables 131072 4294967296"

definition example_spa :: spa where
  "example_spa = \<lparr> dp_dirty_total = 0, spa_has_pending_synctask = False \<rparr>"

text \<open>
  A queue with one asynchronous read and one scrub request waiting, and one request
  of each of the two classes active: both classes have reached their minimum of one.
\<close>

definition example_queue :: vdev_queue where
  "example_queue =
     \<lparr> vq_class = (\<lambda>p.
         if p = ZIO_PRIORITY_ASYNC_READ
           then \<lparr> vqc_active = 1,
                  vqc_queued_tree = [zio_zero\<lparr>io_id := 1, io_priority := ZIO_PRIORITY_ASYNC_READ\<rparr>] \<rparr>
         else if p = ZIO_PRIORITY_SCRUB
           then \<lparr> vqc_active = 1,
                  vqc_queued_tree = [zio_zero\<lparr>io_id := 2, io_priority := ZIO_PRIORITY_SCRUB\<rparr>] \<rparr>
         else \<lparr> vqc_active = 0, vqc_queued_tree = [] \<rparr>),
       vq_active_tree = [zio_zero\<lparr>io_id := 3, io_priority := ZIO_PRIORITY_ASYNC_READ\<rparr>,
                         zio_zero\<lparr>io_id := 4, io_priority := ZIO_PRIORITY_SCRUB\<rparr>],
       vq_last_offset = 0 \<rparr>"

text \<open>A pool with a sync task pending and no dirty data; a pool at 45% dirty data.\<close>

definition synctask_spa :: spa where
  "synctask_spa = \<lparr> dp_dirty_total = 0, spa_has_pending_synctask = True \<rparr>"

definition half_dirty_spa :: spa where
  "half_dirty_spa = \<lparr> dp_dirty_total = 1932735283, spa_has_pending_synctask = False \<rparr>"

section \<open>Pipeline stages\<close>

text \<open>
  Modelled from the spec: \<open>enum zio_stage\<close> and the pipeline masks are declared in
  \<open>sys/zio_impl.h\<close>, which is not part of the source tree at hand.  Section 4.3 of
  the specification describes "a fixed, ordered bitmask of available stages"; the
  numbering is fixed by the table \<open>zio_pipeline[]\<close> at the end of \<open>zio.c\<close>, which
  \<open>zio_execute\<close> indexes with \<open>highbit64(stage) - 1\<close>: the handler at index
  \<open>i\<close> belongs to the stage \<open>1 << i\<close>.  The masks are the unions of stages
  their names say.
\<close>

definition ZIO_STAGE_OPEN :: "32 word" where "ZIO_STAGE_OPEN = push_bit 0 1"
definition ZIO_STAGE_ISSUE_ASYNC :: "32 word" where "ZIO_STAGE_ISSUE_ASYNC = push_bit 3 1"
definition ZIO_STAGE_WRITE_BP_INIT :: "32 word" where "ZIO_STAGE_WRITE_BP_INIT = push_bit 4 1"
definition ZIO_STAGE_CHECKSUM_GENERATE :: "32 word" where "ZIO_STAGE_CHECKSUM_GENERATE = push_bit 5 1"
definition ZIO_STAGE_DDT_WRITE :: "32 word" where "ZIO_STAGE_DDT_WRITE = push_bit 9 1"
definition ZIO_STAGE_DVA_ALLOCATE :: "32 word" where "ZIO_STAGE_DVA_ALLOCATE = push_bit 13 1"
definition ZIO_STAGE_DVA_CLAIM :: "32 word" where "ZIO_STAGE_DVA_CLAIM = push_bit 15 1"
definition ZIO_STAGE_READY :: "32 word" where "ZIO_STAGE_READY = push_bit 16 1"
definition ZIO_STAGE_VDEV_IO_START :: "32 word" where "ZIO_STAGE_VDEV_IO_START = push_bit 17 1"
definition ZIO_STAGE_VDEV_IO_DONE :: "32 word" where "ZIO_STAGE_VDEV_IO_DONE = push_bit 18 1"
definition ZIO_STAGE_VDEV_IO_ASSESS :: "32 word" where "ZIO_STAGE_VDEV_IO_ASSESS = push_bit 19 1"
definition ZIO_STAGE_DONE :: "32 word" where "ZIO_STAGE_DONE = push_bit 21 1"


definition ZIO_INTERLOCK_PIPELINE :: "32 word" where
  "ZIO_INTERLOCK_PIPELINE = ZIO_STAGE_READY OR ZIO_STAGE_DONE"

definition ZIO_VDEV_IO_STAGES :: "32 word" where
  "ZIO_VDEV_IO_STAGES =
     ZIO_STAGE_VDEV_IO_START OR ZIO_STAGE_VDEV_IO_DONE OR ZIO_STAGE_VDEV_IO_ASSESS"

definition ZIO_VDEV_CHILD_PIPELINE :: "32 word" where
  "ZIO_VDEV_CHILD_PIPELINE = ZIO_VDEV_IO_STAGES OR ZIO_STAGE_DONE"

definition ZIO_WRITE_PIPELINE :: "32 word" where
  "ZIO_WRITE_PIPELINE =
     ZIO_INTERLOCK_PIPELINE OR ZIO_VDEV_IO_STAGES OR ZIO_STAGE_ISSUE_ASYNC OR
     ZIO_STAGE_CHECKSUM_GENERATE OR ZIO_STAGE_WRITE_BP_INIT OR ZIO_STAGE_DVA_ALLOCATE"

section \<open>Device scheduler: trees, aggregation and issue (vdev\_queue.c)\<close>

text \<open>
  Assertions.  \<open>ASSERT\<close> compiles to nothing in a production kernel.  The model
  turns an assertion into a failure (\<open>None\<close>) where the code behind it would index
  an array out of bounds, follow a null pointer or remove a node that is not in
  the tree; the other assertions are not part of the model.
\<close>

definition vdev_queue_offset_compare :: "zio \<Rightarrow> zio \<Rightarrow> int" where
  "vdev_queue_offset_compare z1 z2 =
     (if io_offset z1 < io_offset z2 then - 1
      else if io_offset z1 > io_offset z2 then 1
      else if io_id z1 < io_id z2 then - 1
      else if io_id z1 > io_id z2 then 1
      else 0)"

text \<open>\<open>io_timestamp\<close> is an \<open>hrtime_t\<close>, a signed 64-bit integer.\<close>

definition vdev_queue_timestamp_compare :: "zio \<Rightarrow> zio \<Rightarrow> int" where
  "vdev_queue_timestamp_compare z1 z2 =
     (if sint (io_timestamp z1) < sint (io_timestamp z2) then - 1
      else if sint (io_timestamp z1) > sint (io_timestamp z2) then 1
      else if io_id z1 < io_id z2 then - 1
      else if io_id z1 > io_id z2 then 1
      else 0)"

text \<open>The comparison function \<open>vdev_queue_init\<close> gives the queued tree of a class.\<close>

definition class_compare :: "zio_priority \<Rightarrow> zio \<Rightarrow> zio \<Rightarrow> int" where
  "class_compare p =
     (if p = ZIO_PRIORITY_SYNC_READ \<or> p = ZIO_PRIORITY_SYNC_WRITE
      then vdev_queue_timestamp_compare else vdev_queue_offset_compare)"

definition vdev_queue_init :: vdev_queue where
  "vdev_queue_init =
     \<lparr> vq_class = (\<lambda>p. \<lparr> vqc_active = 0, vqc_queued_tree = [] \<rparr>),
       vq_active_tree = [], vq_last_offset = 0 \<rparr>"

fun avl_add :: "(zio \<Rightarrow> zio \<Rightarrow> int) \<Rightarrow> zio \<Rightarrow> zio list \<Rightarrow> zio list" where
  "avl_add cmp z [] = [z]"
| "avl_add cmp z (y # ys) = (if cmp z y < 0 then z # y # ys else y # avl_add cmp z ys)"

text \<open>\<open>avl_remove\<close> of a node that is not in the tree is a failure.\<close>

fun avl_remove :: "zio \<Rightarrow> zio list \<Rightarrow> zio list option" where
  "avl_remove z [] = None"
| "avl_remove z (y # ys) =
     (if io_id y = io_id z then Some ys
      else case avl_remove z ys of None \<Rightarrow> None | Some ys' \<Rightarrow> Some (y # ys'))"

definition queueable :: "zio_priority \<Rightarrow> bool" where
  "queueable p \<longleftrightarrow> priority_index p < priority_index ZIO_PRIORITY_NUM_QUEUEABLE"

definition set_queued :: "vdev_queue \<Rightarrow> zio_priority \<Rightarrow> zio list \<Rightarrow> vdev_queue" where
  "set_queued vq p t = vq\<lparr> vq_class := (vq_class vq)(p := (vq_class vq p)\<lparr> vqc_queued_tree := t \<rparr>) \<rparr>"

definition vdev_queue_io_add :: "vdev_queue \<Rightarrow> zio \<Rightarrow> vdev_queue option" where
  "vdev_queue_io_add vq zio =
     (if \<not> queueable (io_priority zio) then None
      else Some (set_queued vq (io_priority zio)
             (avl_add (class_compare (io_priority zio)) zio
                (vqc_queued_tree (vq_class vq (io_priority zio))))))"

definition vdev_queue_io_remove :: "vdev_queue \<Rightarrow> zio \<Rightarrow> vdev_queue option" where
  "vdev_queue_io_remove vq zio =
     (if \<not> queueable (io_priority zio) then None
      else case avl_remove zio (vqc_queued_tree (vq_class vq (io_priority zio))) of
             None \<Rightarrow> None
           | Some t \<Rightarrow> Some (set_queued vq (io_priority zio) t))"

definition vdev_queue_pending_add :: "vdev_queue \<Rightarrow> zio \<Rightarrow> vdev_queue option" where
  "vdev_queue_pending_add vq zio =
     (if \<not> queueable (io_priority zio) then None
      else Some (vq\<lparr> vq_class := (vq_class vq)(io_priority zio :=
                        (vq_class vq (io_priority zio))
                          \<lparr> vqc_active := vqc_active (vq_class vq (io_priority zio)) + 1 \<rparr>),
                     vq_active_tree := avl_add vdev_queue_offset_compare zio (vq_active_tree vq) \<rparr>))"

definition vdev_queue_pending_remove :: "vdev_queue \<Rightarrow> zio \<Rightarrow> vdev_queue option" where
  "vdev_queue_pending_remove vq zio =
     (if \<not> queueable (io_priority zio) then None
      else case avl_remove zio (vq_active_tree vq) of
             None \<Rightarrow> None
           | Some t \<Rightarrow>
               Some (vq\<lparr> vq_class := (vq_class vq)(io_priority zio :=
                             (vq_class vq (io_priority zio))
                               \<lparr> vqc_active := vqc_active (vq_class vq (io_priority zio)) - 1 \<rparr>),
                          vq_active_tree := t \<rparr>))"

text \<open>The macros \<open>IO_SPAN\<close> and \<open>IO_GAP\<close>, in \<open>uint64_t\<close> arithmetic.\<close>

definition IO_SPAN :: "zio \<Rightarrow> zio \<Rightarrow> 64 word" where
  "IO_SPAN fio lio = io_offset lio + io_size lio - io_offset fio"

definition IO_GAP :: "zio \<Rightarrow> zio \<Rightarrow> 64 word" where
  "IO_GAP fio lio = - IO_SPAN lio fio"

text \<open>
  \<open>zio_vdev_delegated_io\<close> (zio.c), through \<open>zio_create\<close> with no parent and no
  block pointer: the fields \<open>zio_create\<close> sets on the zeroed request.  \<open>zid\<close> is
  the address the allocator returns.
\<close>

definition zio_vdev_delegated_io ::
  "nat \<Rightarrow> nat option \<Rightarrow> 64 word \<Rightarrow> 64 word \<Rightarrow> zio_type \<Rightarrow> zio_priority \<Rightarrow> zio_flag set \<Rightarrow>
   zio_done_func \<Rightarrow> zio" where
  "zio_vdev_delegated_io zid vd offs sz type priority flags done =
     (let fl = flags \<union> {ZIO_FLAG_CANFAIL, ZIO_FLAG_DONT_RETRY, ZIO_FLAG_DELEGATED};
          stage = drop_bit 1 ZIO_STAGE_VDEV_IO_START
      in zio_zero\<lparr> io_id := zid, io_child_type := ZIO_CHILD_VDEV,
           io_done := Some done, io_type := type, io_priority := priority,
           io_vd := vd, io_offset := offs, io_size := sz,
           io_flags := fl, io_orig_flags := fl,
           io_stage := stage, io_orig_stage := stage,
           io_pipeline := ZIO_VDEV_CHILD_PIPELINE, io_orig_pipeline := ZIO_VDEV_CHILD_PIPELINE,
           io_state := (\<lambda>w. case w of ZIO_WAIT_READY \<Rightarrow> stage \<ge> ZIO_STAGE_READY
                                     | ZIO_WAIT_DONE \<Rightarrow> stage \<ge> ZIO_STAGE_DONE) \<rparr>)"

text \<open>
  \<open>vdev_queue_aggregate\<close>.  The queued tree \<open>t\<close> of the class is a list, a request
  in it is its position, \<open>NULL\<close> for \<open>mandatory\<close> is \<open>None\<close>.  \<open>agg\<close> is the mask
  \<open>ZIO_FLAG_AGG_INHERIT\<close>; the \<open>int\<close> limits are sign-extended for the comparison
  with \<open>uint64_t\<close> values.

  The walk backwards from \<open>first\<close>, with \<open>last\<close> fixed:
\<close>

fun agg_walk_back ::
  "tunables \<Rightarrow> zio_flag set \<Rightarrow> zio_flag set \<Rightarrow> 64 word \<Rightarrow> zio list \<Rightarrow> nat \<Rightarrow> nat \<Rightarrow> nat option \<Rightarrow>
   nat \<times> nat option" where
  "agg_walk_back tn agg flags maxgap t 0 lastp mand = (0, mand)"
| "agg_walk_back tn agg flags maxgap t (Suc i) lastp mand =
     (let dio = t ! i in
      if io_flags dio \<inter> agg = flags \<and>
         IO_SPAN dio (t ! lastp) \<le> scast (zfs_vdev_aggregation_limit tn) \<and>
         IO_GAP dio (t ! Suc i) \<le> maxgap
      then agg_walk_back tn agg flags maxgap t i lastp
             (if mand = None \<and> ZIO_FLAG_OPTIONAL \<notin> io_flags dio then Some i else mand)
      else (Suc i, mand))"

text \<open>Skipping initial optional requests; \<open>None\<close> is \<open>AVL_NEXT\<close> returning \<open>NULL\<close>.\<close>

function agg_skip_optional :: "zio list \<Rightarrow> nat \<Rightarrow> nat \<Rightarrow> nat option" where
  "agg_skip_optional t firstp lastp =
     (if ZIO_FLAG_OPTIONAL \<in> io_flags (t ! firstp) \<and> firstp \<noteq> lastp then
        (if Suc firstp < length t then agg_skip_optional t (Suc firstp) lastp else None)
      else Some firstp)"
  by pat_completeness auto
termination
  by (relation "measure (\<lambda>(t, firstp, lastp). length t - firstp)") auto

declare agg_skip_optional.simps [simp del]

text \<open>The walk forwards from \<open>last\<close>, with \<open>first\<close> fixed.\<close>

function agg_walk_fwd ::
  "tunables \<Rightarrow> zio_flag set \<Rightarrow> zio_flag set \<Rightarrow> 64 word \<Rightarrow> zio list \<Rightarrow> nat \<Rightarrow> nat \<Rightarrow> nat option \<Rightarrow>
   nat \<times> nat option" where
  "agg_walk_fwd tn agg flags maxgap t firstp lastp mand =
     (if Suc lastp < length t \<and>
         io_flags (t ! Suc lastp) \<inter> agg = flags \<and>
         IO_SPAN (t ! firstp) (t ! Suc lastp) \<le> scast (zfs_vdev_aggregation_limit tn) \<and>
         IO_GAP (t ! lastp) (t ! Suc lastp) \<le> maxgap
      then agg_walk_fwd tn agg flags maxgap t firstp (Suc lastp)
             (if ZIO_FLAG_OPTIONAL \<notin> io_flags (t ! Suc lastp) then Some (Suc lastp) else mand)
      else (lastp, mand))"
  by pat_completeness auto
termination
  by (relation "measure (\<lambda>(tn, agg, flags, maxgap, t, firstp, lastp, mand). length t - lastp)") auto

declare agg_walk_fwd.simps [simp del]

text \<open>
  The search for a non-optional request after \<open>last\<close> that is contiguous with what
  precedes it and close enough to the last mandatory request: the value of
  \<open>stretch\<close>.
\<close>

function agg_stretch :: "tunables \<Rightarrow> zio list \<Rightarrow> nat \<Rightarrow> nat \<Rightarrow> bool" where
  "agg_stretch tn t nio mand =
     (if Suc nio < length t \<and>
         IO_GAP (t ! nio) (t ! Suc nio) = 0 \<and>
         IO_GAP (t ! mand) (t ! Suc nio) \<le> scast (zfs_vdev_write_gap_limit tn)
      then (if ZIO_FLAG_OPTIONAL \<notin> io_flags (t ! Suc nio) then True
            else agg_stretch tn t (Suc nio) mand)
      else False)"
  by pat_completeness auto
termination
  by (relation "measure (\<lambda>(tn, t, nio, mand). length t - nio)") auto

declare agg_stretch.simps [simp del]

text \<open>
  Dropping trailing optional requests: \<open>last\<close> steps back until it is the last
  mandatory request or \<open>first\<close>; \<open>None\<close> is \<open>AVL_PREV\<close> returning \<open>NULL\<close>.
\<close>

fun agg_trim :: "nat \<Rightarrow> nat \<Rightarrow> nat option \<Rightarrow> nat option" where
  "agg_trim firstp 0 mand = (if Some 0 \<noteq> mand \<and> 0 \<noteq> firstp then None else Some 0)"
| "agg_trim firstp (Suc l) mand =
     (if Some (Suc l) \<noteq> mand \<and> Suc l \<noteq> firstp then agg_trim firstp l mand else Some (Suc l))"

text \<open>
  The part of \<open>vdev_queue_aggregate\<close> that settles the range: from the request at
  position \<open>k\<close> of the tree \<open>t\<close> to the final \<open>first\<close>, \<open>last\<close>,
  \<open>mandatory\<close> and \<open>stretch\<close>.
\<close>

definition agg_range ::
  "tunables \<Rightarrow> zio_flag set \<Rightarrow> zio list \<Rightarrow> nat \<Rightarrow> (nat \<times> nat \<times> nat option \<times> bool) option" where
  "agg_range tn agg t k =
     (let zio = t ! k;
          maxgap = (if io_type zio = ZIO_TYPE_READ then scast (zfs_vdev_read_gap_limit tn) else 0);
          flags = io_flags zio \<inter> agg;
          mand0 = (if ZIO_FLAG_OPTIONAL \<in> io_flags zio then None else Some k);
          (firstp1, mand1) = agg_walk_back tn agg flags maxgap t k k mand0
      in case agg_skip_optional t firstp1 k of
           None \<Rightarrow> None
         | Some firstp \<Rightarrow>
             let (lastp1, mand) = agg_walk_fwd tn agg flags maxgap t firstp k mand1;
                 stretch = (case mand of
                              None \<Rightarrow> False
                            | Some m \<Rightarrow> io_type zio = ZIO_TYPE_WRITE \<and> agg_stretch tn t lastp1 m)
             in case (if stretch then Some lastp1 else agg_trim firstp lastp1 mand) of
                  None \<Rightarrow> None
                | Some lastp \<Rightarrow> Some (firstp, lastp, mand, stretch))"

text \<open>
  The function itself, for the request at position \<open>k\<close> of the queued tree of
  class \<open>p\<close>.  The result is the queue (with \<open>stretch\<close> the request after
  \<open>last\<close> has lost its optional flag; the aggregated requests have left the
  tree) and, when an aggregate was built, the new request \<open>aio\<close> with the requests
  it stands for, in tree order.  Each of them becomes a parent of \<open>aio\<close> and is
  run through the pipeline with the device stages bypassed; that is outside the
  queue.
\<close>

definition vdev_queue_aggregate ::
  "tunables \<Rightarrow> zio_flag set \<Rightarrow> nat \<Rightarrow> vdev_queue \<Rightarrow> zio_priority \<Rightarrow> nat \<Rightarrow>
   (vdev_queue \<times> (zio \<times> zio list) option) option" where
  "vdev_queue_aggregate tn agg aio_id vq p k =
     (let t = vqc_queued_tree (vq_class vq p); zio = t ! k in
      if k \<ge> length t then None
      else if ZIO_FLAG_DONT_AGGREGATE \<in> io_flags zio then Some (vq, None)
      else if io_priority zio = ZIO_PRIORITY_SYNC_READ \<or> io_priority zio = ZIO_PRIORITY_SYNC_WRITE
        then Some (vq, None)
      else if io_priority zio \<noteq> p then None
      else
        case agg_range tn agg t k of
          None \<Rightarrow> None
        | Some (firstp, lastp, mand, stretch) \<Rightarrow>
            let t1 = (if stretch
                      then t[Suc lastp := (t ! Suc lastp)
                              \<lparr> io_flags := io_flags (t ! Suc lastp) - {ZIO_FLAG_OPTIONAL} \<rparr>]
                      else t)
            in if firstp = lastp then Some (set_queued vq p t1, None)
               else
                 let dios = take (Suc lastp - firstp) (drop firstp t1);
                     aio = (zio_vdev_delegated_io aio_id (io_vd (t1 ! firstp))
                              (io_offset (t1 ! firstp)) (IO_SPAN (t1 ! firstp) (t1 ! lastp))
                              (io_type (t1 ! firstp)) (io_priority zio)
                              (io_flags zio \<inter> agg \<union> {ZIO_FLAG_DONT_CACHE, ZIO_FLAG_DONT_QUEUE})
                              VDEV_QUEUE_AGG_IO_DONE)
                           \<lparr> io_timestamp := io_timestamp (t1 ! firstp) \<rparr>
                 in if (\<exists>d \<in> set dios. io_priority d \<noteq> p) then None
                    else Some (set_queued vq p (take firstp t1 @ drop (Suc lastp) t1),
                               Some (aio, dios)))"

text \<open>
  \<open>avl_nearest(tree, idx, AVL_AFTER)\<close> after an unsuccessful \<open>avl_find\<close>: the
  position of the first node greater than the search key.
\<close>

fun avl_nearest_after :: "(zio \<Rightarrow> zio \<Rightarrow> int) \<Rightarrow> zio \<Rightarrow> zio list \<Rightarrow> nat option" where
  "avl_nearest_after cmp s [] = None"
| "avl_nearest_after cmp s (y # ys) =
     (if cmp s y < 0 then Some 0 else map_option Suc (avl_nearest_after cmp s ys))"

text \<open>
  \<open>vdev_queue_io_to_issue\<close>, one pass from the label \<open>again\<close>: either the
  function returns (\<open>Issued\<close>: the queue and the request to issue, if any), or a
  request without data was taken off the queue and discarded and control goes
  back to \<open>again\<close> (\<open>Again\<close>).  \<open>search\<close> is the address of the local search key,
  \<open>fresh\<close> the address of the aggregate request should one be created.
\<close>

datatype issue_step = Again vdev_queue | Issued vdev_queue "zio option"

text \<open>
  Choosing the request of class \<open>p\<close>: the first one after the search key
  \<open>(0, vq_last_offset + 1)\<close>, or the first of the tree when there is none.
  \<open>None\<close> is the failure of \<open>VERIFY3P\<close> or an empty tree (a null pointer).
\<close>

definition to_issue_choose :: "zio_priority \<Rightarrow> nat \<Rightarrow> vdev_queue \<Rightarrow> nat option" where
  "to_issue_choose p search vq =
     (let t = vqc_queued_tree (vq_class vq p);
          s = zio_zero\<lparr> io_id := search, io_timestamp := 0,
                         io_offset := vq_last_offset vq + 1 \<rparr>
      in if (\<exists>z \<in> set t. class_compare p s z = 0) then None
         else if t = [] then None
         else Some (case avl_nearest_after (class_compare p) s t of
                      None \<Rightarrow> 0 | Some k \<Rightarrow> k))"

text \<open>
  Taking it off the queue: as an aggregate if \<open>vdev_queue_aggregate\<close> builds one,
  by itself otherwise.
\<close>

definition to_issue_take ::
  "tunables \<Rightarrow> zio_flag set \<Rightarrow> nat \<Rightarrow> vdev_queue \<Rightarrow> zio_priority \<Rightarrow> nat \<Rightarrow>
   (vdev_queue \<times> zio) option" where
  "to_issue_take tn agg fresh vq p k =
     (case vdev_queue_aggregate tn agg fresh vq p k of
        None \<Rightarrow> None
      | Some (vq1, Some (aio, dios)) \<Rightarrow> Some (vq1, aio)
      | Some (vq1, None) \<Rightarrow>
          (case vdev_queue_io_remove vq1 (vqc_queued_tree (vq_class vq1 p) ! k) of
             None \<Rightarrow> None
           | Some vq2 \<Rightarrow> Some (vq2, vqc_queued_tree (vq_class vq1 p) ! k)))"

text \<open>
  A request without data is discarded and the function starts again; any other
  request enters the active tree and is returned.
\<close>

definition to_issue_finish :: "vdev_queue \<Rightarrow> zio \<Rightarrow> issue_step option" where
  "to_issue_finish vq zio =
     (if ZIO_FLAG_NODATA \<in> io_flags zio then Some (Again vq)
      else case vdev_queue_pending_add vq zio of
             None \<Rightarrow> None
           | Some vq3 \<Rightarrow> Some (Issued (vq3\<lparr> vq_last_offset := io_offset zio \<rparr>) (Some zio)))"

definition vdev_queue_io_to_issue_step ::
  "tunables \<Rightarrow> zio_flag set \<Rightarrow> spa \<Rightarrow> nat \<Rightarrow> nat \<Rightarrow> vdev_queue \<Rightarrow> issue_step option" where
  "vdev_queue_io_to_issue_step tn agg sp search fresh vq =
     (case vdev_queue_class_to_issue tn sp vq of
        None \<Rightarrow> None
      | Some p \<Rightarrow>
          if p = ZIO_PRIORITY_NUM_QUEUEABLE then Some (Issued vq None)
          else case to_issue_choose p search vq of
                 None \<Rightarrow> None
               | Some k \<Rightarrow>
                   (case to_issue_take tn agg fresh vq p k of
                      None \<Rightarrow> None
                    | Some (vq2, zio) \<Rightarrow> to_issue_finish vq2 zio))"

definition total_queued :: "vdev_queue \<Rightarrow> nat" where
  "total_queued vq = sum_list (map (\<lambda>p. length (vqc_queued_tree (vq_class vq p))) queueable_classes)"

text \<open>Bounds on the positions the aggregation loops compute.\<close>

lemma walk_back_le: "fst (agg_walk_back tn agg flags maxgap t i l m) \<le> i"
  by (induction i arbitrary: m) (auto simp: Let_def le_SucI)

lemma skip_optional_bounds:
  "agg_skip_optional t f l = Some f' \<Longrightarrow> f \<le> l \<Longrightarrow> f \<le> f' \<and> f' \<le> l"
proof (induction t f l rule: agg_skip_optional.induct)
  case (1 t f l)
  show ?case
  proof (cases "ZIO_FLAG_OPTIONAL \<in> io_flags (t ! f) \<and> f \<noteq> l")
    case True
    with "1.prems" have r: "Suc f < length t" "agg_skip_optional t (Suc f) l = Some f'"
      by (auto simp: agg_skip_optional.simps[of t f l] split: if_splits)
    from True "1.prems" have "Suc f \<le> l" by simp
    with "1.IH"[OF True r(1) r(2)] show ?thesis by simp
  next
    case False
    with "1.prems" show ?thesis by (auto simp: agg_skip_optional.simps[of t f l])
  qed
qed

lemma walk_fwd_bounds_aux:
  "l < length t \<longrightarrow> l \<le> fst (agg_walk_fwd tn agg flags maxgap t f l m) \<and>
     fst (agg_walk_fwd tn agg flags maxgap t f l m) < length t"
proof (induction tn agg flags maxgap t f l m rule: agg_walk_fwd.induct)
  case (1 tn agg flags maxgap t f l m)
  show ?case
  proof (cases "Suc l < length t \<and>
         io_flags (t ! Suc l) \<inter> agg = flags \<and>
         IO_SPAN (t ! f) (t ! Suc l) \<le> scast (zfs_vdev_aggregation_limit tn) \<and>
         IO_GAP (t ! l) (t ! Suc l) \<le> maxgap")
    case True
    let ?m' = "if ZIO_FLAG_OPTIONAL \<notin> io_flags (t ! Suc l) then Some (Suc l) else m"
    have ih: "Suc l \<le> fst (agg_walk_fwd tn agg flags maxgap t f (Suc l) ?m') \<and>
              fst (agg_walk_fwd tn agg flags maxgap t f (Suc l) ?m') < length t"
      using "1.IH" True by blast
    have "agg_walk_fwd tn agg flags maxgap t f l m
            = agg_walk_fwd tn agg flags maxgap t f (Suc l) ?m'"
      using True by (subst agg_walk_fwd.simps) simp
    with ih show ?thesis by (simp add: Suc_leD)
  next
    case False
    then have "agg_walk_fwd tn agg flags maxgap t f l m = (l, m)"
      by (subst agg_walk_fwd.simps) auto
    then show ?thesis by simp
  qed
qed

lemma walk_fwd_bounds:
  "l < length t \<Longrightarrow> l \<le> fst (agg_walk_fwd tn agg flags maxgap t f l m) \<and>
     fst (agg_walk_fwd tn agg flags maxgap t f l m) < length t"
  using walk_fwd_bounds_aux by blast

lemma trim_bounds: "agg_trim f l m = Some l' \<Longrightarrow> f \<le> l \<Longrightarrow> f \<le> l' \<and> l' \<le> l"
  by (induction l) (auto split: if_splits)

lemma agg_range_bounds:
  assumes "agg_range tn agg t k = Some (f, l, m, st)" "k < length t"
  shows "f \<le> l \<and> l < length t"
proof -
  let ?zio = "t ! k"
  let ?maxgap = "if io_type ?zio = ZIO_TYPE_READ
                 then scast (zfs_vdev_read_gap_limit tn) else (0::64 word)"
  let ?flags = "io_flags ?zio \<inter> agg"
  let ?mand0 = "if ZIO_FLAG_OPTIONAL \<in> io_flags ?zio then None else Some k"
  obtain f1 m1 where wb: "agg_walk_back tn agg ?flags ?maxgap t k k ?mand0 = (f1, m1)"
    by (cases "agg_walk_back tn agg ?flags ?maxgap t k k ?mand0") auto
  have f1k: "f1 \<le> k" using walk_back_le[of tn agg ?flags ?maxgap t k k ?mand0] wb by simp
  obtain l1 m2 where wf: "agg_walk_fwd tn agg ?flags ?maxgap t f k m1 = (l1, m2)"
    by (cases "agg_walk_fwd tn agg ?flags ?maxgap t f k m1") auto
  from assms(1) wb have sk: "agg_skip_optional t f1 k = Some f"
    by (auto simp: agg_range_def Let_def split: option.splits prod.splits if_splits)
  from skip_optional_bounds[OF sk f1k] have fk: "f \<le> k" by simp
  from walk_fwd_bounds[OF assms(2), of tn agg ?flags ?maxgap f m1] wf
  have l1b: "k \<le> l1" "l1 < length t" by simp_all
  from assms(1) wb sk wf have "l = l1 \<or> agg_trim f l1 m2 = Some l"
    by (auto simp: agg_range_def Let_def split: option.splits prod.splits if_splits)
  then show ?thesis
  proof
    assume "l = l1" with fk l1b show ?thesis by simp
  next
    assume "agg_trim f l1 m2 = Some l"
    from trim_bounds[OF this] fk l1b show ?thesis by simp
  qed
qed

text \<open>The number of queued requests, and what the queue operations do to it.\<close>

lemma queueable_iff: "queueable p \<longleftrightarrow> p \<in> set queueable_classes"
  by (cases p) (simp_all add: queueable_def queueable_classes_def)

lemma total_queued_set_queued:
  "p \<in> set queueable_classes \<Longrightarrow>
   total_queued (set_queued vq p t) + length (vqc_queued_tree (vq_class vq p))
     = total_queued vq + length t"
  by (auto simp: total_queued_def set_queued_def queueable_classes_def)

lemma avl_remove_length: "avl_remove z t = Some t' \<Longrightarrow> Suc (length t') = length t"
  by (induction t arbitrary: t') (auto split: if_splits option.splits)

lemma io_remove_total:
  assumes "vdev_queue_io_remove vq z = Some vq'"
  shows "Suc (total_queued vq') = total_queued vq"
proof -
  from assms obtain t where q: "io_priority z \<in> set queueable_classes"
    and r: "avl_remove z (vqc_queued_tree (vq_class vq (io_priority z))) = Some t"
    and v: "vq' = set_queued vq (io_priority z) t"
    by (auto simp: vdev_queue_io_remove_def queueable_iff split: if_splits option.splits)
  from total_queued_set_queued[OF q, of vq t] avl_remove_length[OF r] v
  show ?thesis by simp
qed

lemma below_min_scan_range:
  "issue_below_min tn vq ps = Some (Some p) \<Longrightarrow> p \<in> set ps"
  by (induction ps) (auto split: if_splits option.splits)

lemma below_max_scan_range:
  "issue_below_max tn sp vq ps = Some (Some p) \<Longrightarrow> p \<in> set ps"
  by (induction ps) (auto split: if_splits option.splits)

lemma class_to_issue_range:
  "vdev_queue_class_to_issue tn sp vq = Some p \<Longrightarrow>
   p = ZIO_PRIORITY_NUM_QUEUEABLE \<or> p \<in> set queueable_classes"
  by (auto simp: vdev_queue_class_to_issue_def split: if_splits option.splits
           dest: below_min_scan_range below_max_scan_range)

lemma aggregate_total:
  assumes "vdev_queue_aggregate tn agg a vq p k = Some (vq1, r)" "p \<in> set queueable_classes"
  shows "(case r of None \<Rightarrow> total_queued vq1 = total_queued vq
          | Some x \<Rightarrow> total_queued vq1 < total_queued vq)"
proof -
  let ?t = "vqc_queued_tree (vq_class vq p)"
  from assms(1) have k: "k < length ?t"
    by (auto simp: vdev_queue_aggregate_def Let_def split: if_splits)
  show ?thesis
  proof (cases "vq1 = vq \<and> r = None")
    case True
    then show ?thesis by simp
  next
    case False
    with assms(1) k obtain f l m st where
      rg: "agg_range tn agg ?t k = Some (f, l, m, st)"
      by (auto simp: vdev_queue_aggregate_def Let_def split: if_splits option.splits)
    from agg_range_bounds[OF rg k] have b: "f \<le> l" "l < length ?t" by simp_all
    let ?t1 = "if st then ?t[Suc l := (?t ! Suc l)
                  \<lparr> io_flags := io_flags (?t ! Suc l) - {ZIO_FLAG_OPTIONAL} \<rparr>] else ?t"
    have len: "length ?t1 = length ?t" by simp
    from assms(1) k rg False have
      "(r = None \<and> vq1 = set_queued vq p ?t1) \<or>
       (r \<noteq> None \<and> vq1 = set_queued vq p (take f ?t1 @ drop (Suc l) ?t1))"
      by (auto simp: vdev_queue_aggregate_def Let_def split: if_splits option.splits)
    then show ?thesis
    proof
      assume a: "r = None \<and> vq1 = set_queued vq p ?t1"
      with total_queued_set_queued[OF assms(2), of vq ?t1] len show ?thesis by simp
    next
      assume a: "r \<noteq> None \<and> vq1 = set_queued vq p (take f ?t1 @ drop (Suc l) ?t1)"
      have "length (take f ?t1 @ drop (Suc l) ?t1) < length ?t" using b len by simp
      with a total_queued_set_queued[OF assms(2), of vq "take f ?t1 @ drop (Suc l) ?t1"]
      show ?thesis by auto
    qed
  qed
qed

lemma to_issue_take_total:
  assumes "to_issue_take tn agg fresh vq p k = Some (vq2, z)" "p \<in> set queueable_classes"
  shows "total_queued vq2 < total_queued vq"
proof -
  from assms(1) obtain vq1 r where ag: "vdev_queue_aggregate tn agg fresh vq p k = Some (vq1, r)"
    by (cases "vdev_queue_aggregate tn agg fresh vq p k") (auto simp: to_issue_take_def)
  show ?thesis
  proof (cases r)
    case None
    with assms(1) ag have
      "vdev_queue_io_remove vq1 (vqc_queued_tree (vq_class vq1 p) ! k) = Some vq2"
      by (auto simp: to_issue_take_def split: option.splits)
    from io_remove_total[OF this] aggregate_total[OF ag assms(2)] None show ?thesis by simp
  next
    case (Some x)
    with assms(1) ag have "vq2 = vq1"
      by (auto simp: to_issue_take_def split: option.splits prod.splits)
    with aggregate_total[OF ag assms(2)] Some show ?thesis by simp
  qed
qed

lemma to_issue_step_cases:
  assumes "vdev_queue_io_to_issue_step tn agg sp search fresh vq = Some st"
  shows "(vdev_queue_class_to_issue tn sp vq = Some ZIO_PRIORITY_NUM_QUEUEABLE \<and>
          st = Issued vq None) \<or>
         (\<exists>p k vq2 z. vdev_queue_class_to_issue tn sp vq = Some p \<and>
            p \<in> set queueable_classes \<and>
            to_issue_choose p search vq = Some k \<and>
            to_issue_take tn agg fresh vq p k = Some (vq2, z) \<and>
            to_issue_finish vq2 z = Some st)"
proof -
  from assms obtain p where p: "vdev_queue_class_to_issue tn sp vq = Some p"
    by (auto simp: vdev_queue_io_to_issue_step_def split: option.splits)
  show ?thesis
  proof (cases "p = ZIO_PRIORITY_NUM_QUEUEABLE")
    case True
    with assms p show ?thesis by (simp add: vdev_queue_io_to_issue_step_def)
  next
    case False
    with class_to_issue_range[OF p] have pq: "p \<in> set queueable_classes" by simp
    from assms p False obtain k where k: "to_issue_choose p search vq = Some k"
      by (cases "to_issue_choose p search vq") (auto simp: vdev_queue_io_to_issue_step_def)
    from assms p False k obtain vq2 z where t: "to_issue_take tn agg fresh vq p k = Some (vq2, z)"
      by (cases "to_issue_take tn agg fresh vq p k") (auto simp: vdev_queue_io_to_issue_step_def)
    from assms p False k t have "to_issue_finish vq2 z = Some st"
      by (simp add: vdev_queue_io_to_issue_step_def)
    with p pq k t show ?thesis by blast
  qed
qed

lemma to_issue_step_again:
  assumes "vdev_queue_io_to_issue_step tn agg sp search fresh vq = Some (Again vq')"
  shows "total_queued vq' < total_queued vq"
proof -
  from to_issue_step_cases[OF assms] obtain p k vq2 z where
    pq: "p \<in> set queueable_classes"
    and t: "to_issue_take tn agg fresh vq p k = Some (vq2, z)"
    and f: "to_issue_finish vq2 z = Some (Again vq')"
    by auto
  from f have "vq' = vq2" by (auto simp: to_issue_finish_def split: if_splits option.splits)
  with to_issue_take_total[OF t pq] show ?thesis by simp
qed

text \<open>
  \<open>vdev_queue_io_to_issue\<close>: the loop around the label \<open>again\<close>.  The result is
  the queue, the request to issue (\<open>None\<close> is \<open>NULL\<close>) and the next unused
  address.
\<close>

function vdev_queue_io_to_issue ::
  "tunables \<Rightarrow> zio_flag set \<Rightarrow> spa \<Rightarrow> nat \<Rightarrow> nat \<Rightarrow> vdev_queue \<Rightarrow>
   (vdev_queue \<times> zio option \<times> nat) option" where
  "vdev_queue_io_to_issue tn agg sp search fresh vq =
     (case vdev_queue_io_to_issue_step tn agg sp search fresh vq of
        None \<Rightarrow> None
      | Some (Issued vq' r) \<Rightarrow> Some (vq', r, Suc fresh)
      | Some (Again vq') \<Rightarrow> vdev_queue_io_to_issue tn agg sp search (Suc fresh) vq')"
  by pat_completeness auto
termination
  by (relation "measure (\<lambda>(tn, agg, sp, search, fresh, vq). total_queued vq)")
     (auto dest: to_issue_step_again)

declare vdev_queue_io_to_issue.simps [simp del]

lemma set_queued_active [simp]: "vq_active_tree (set_queued vq p t) = vq_active_tree vq"
  by (simp add: set_queued_def)

lemma aggregate_active:
  "vdev_queue_aggregate tn agg a vq p k = Some (vq1, r) \<Longrightarrow> vq_active_tree vq1 = vq_active_tree vq"
  by (auto simp: vdev_queue_aggregate_def Let_def split: if_splits option.splits)

lemma io_remove_active:
  "vdev_queue_io_remove vq z = Some vq' \<Longrightarrow> vq_active_tree vq' = vq_active_tree vq"
  by (auto simp: vdev_queue_io_remove_def split: if_splits option.splits)

lemma pending_add_queued:
  "vdev_queue_pending_add vq z = Some vq' \<Longrightarrow> total_queued vq' = total_queued vq"
  by (auto simp: vdev_queue_pending_add_def total_queued_def queueable_classes_def
           split: if_splits)

lemma to_issue_step_issued:
  assumes "vdev_queue_io_to_issue_step tn agg sp search fresh vq = Some (Issued vq' (Some z))"
  shows "total_queued vq' < total_queued vq"
proof -
  from to_issue_step_cases[OF assms] obtain p k vq2 y where
    pq: "p \<in> set queueable_classes"
    and t: "to_issue_take tn agg fresh vq p k = Some (vq2, y)"
    and f: "to_issue_finish vq2 y = Some (Issued vq' (Some z))"
    by auto
  from f obtain vq3 where r: "vdev_queue_pending_add vq2 y = Some vq3"
    "vq' = vq3\<lparr> vq_last_offset := io_offset y \<rparr>"
    by (auto simp: to_issue_finish_def split: if_splits option.splits)
  have "total_queued vq' = total_queued vq3" using r(2) by (simp add: total_queued_def)
  with pending_add_queued[OF r(1)] to_issue_take_total[OF t pq] show ?thesis by simp
qed

lemma to_issue_issued_aux:
  "vdev_queue_io_to_issue tn agg sp search fresh vq = Some (vq', Some z, f') \<longrightarrow>
   total_queued vq' < total_queued vq"
proof (induction tn agg sp search fresh vq rule: vdev_queue_io_to_issue.induct)
  case (1 tn agg sp search fresh vq)
  show ?case
  proof (cases "vdev_queue_io_to_issue_step tn agg sp search fresh vq")
    case None
    then show ?thesis by (simp add: vdev_queue_io_to_issue.simps[of tn agg sp search fresh vq])
  next
    case (Some st)
    show ?thesis
    proof (cases st)
      case (Again vq1)
      with Some "1.IH"[of st vq1] to_issue_step_again[of tn agg sp search fresh vq vq1]
      show ?thesis
        by (auto simp: vdev_queue_io_to_issue.simps[of tn agg sp search fresh vq])
    next
      case (Issued vq1 r)
      with Some to_issue_step_issued[of tn agg sp search fresh vq vq1]
      show ?thesis
        by (auto simp: vdev_queue_io_to_issue.simps[of tn agg sp search fresh vq])
    qed
  qed
qed

lemma to_issue_issued:
  "vdev_queue_io_to_issue tn agg sp search fresh vq = Some (vq', Some z, f') \<Longrightarrow>
   total_queued vq' < total_queued vq"
  using to_issue_issued_aux by blast

text \<open>
  \<open>vdev_queue_io\<close>.  The block that fixes up the priority of a request whose
  priority does not match its type, then what is done to the request before the
  lock is taken and under it (\<open>now\<close> is the value of \<open>gethrtime()\<close>), then the
  function.  The result is the queue, the request the caller is to issue itself
  (\<open>None\<close> when nothing is to be issued or when the request to issue is an
  aggregate, which \<open>zio_nowait\<close> starts) and the next unused address.
\<close>

definition vdev_queue_io_fixup :: "zio \<Rightarrow> zio" where
  "vdev_queue_io_fixup zio =
     (if io_type zio = ZIO_TYPE_READ then
        (if io_priority zio \<noteq> ZIO_PRIORITY_SYNC_READ \<and>
            io_priority zio \<noteq> ZIO_PRIORITY_ASYNC_READ \<and>
            io_priority zio \<noteq> ZIO_PRIORITY_SCRUB
         then zio\<lparr> io_priority := ZIO_PRIORITY_ASYNC_READ \<rparr> else zio)
      else if io_type zio = ZIO_TYPE_WRITE then
        (if io_priority zio \<noteq> ZIO_PRIORITY_SYNC_WRITE \<and>
            io_priority zio \<noteq> ZIO_PRIORITY_ASYNC_WRITE
         then zio\<lparr> io_priority := ZIO_PRIORITY_ASYNC_WRITE \<rparr> else zio)
      else zio\<lparr> io_priority := ZIO_PRIORITY_TRIM \<rparr>)"

definition vdev_queue_io_prepare :: "zio \<Rightarrow> 64 word \<Rightarrow> zio" where
  "vdev_queue_io_prepare zio now =
     (let z1 = vdev_queue_io_fixup zio;
          z2 = z1\<lparr> io_flags := io_flags z1 \<union> {ZIO_FLAG_DONT_CACHE, ZIO_FLAG_DONT_QUEUE} \<rparr>
      in z2\<lparr> io_timestamp := now \<rparr>)"

definition vdev_queue_io ::
  "tunables \<Rightarrow> zio_flag set \<Rightarrow> spa \<Rightarrow> nat \<Rightarrow> nat \<Rightarrow> 64 word \<Rightarrow> vdev_queue \<Rightarrow> zio \<Rightarrow>
   (vdev_queue \<times> zio option \<times> nat) option" where
  "vdev_queue_io tn agg sp search fresh now vq zio =
     (if ZIO_FLAG_DONT_QUEUE \<in> io_flags zio then Some (vq, Some zio, fresh)
      else case vdev_queue_io_add vq (vdev_queue_io_prepare zio now) of
             None \<Rightarrow> None
           | Some vq1 \<Rightarrow>
               (case vdev_queue_io_to_issue tn agg sp search fresh vq1 of
                  None \<Rightarrow> None
                | Some (vq2, None, fresh') \<Rightarrow> Some (vq2, None, fresh')
                | Some (vq2, Some nio, fresh') \<Rightarrow>
                    if io_done nio = Some VDEV_QUEUE_AGG_IO_DONE then Some (vq2, None, fresh')
                    else Some (vq2, Some nio, fresh')))"

text \<open>
  \<open>vdev_queue_io_done\<close>: the completed request leaves the active tree, then
  requests are issued for as long as \<open>vdev_queue_io_to_issue\<close> returns one.  (The
  injected delay and the completion timestamp are not part of the model; the
  issued requests are started outside the lock.)
\<close>

function vdev_queue_io_done_loop ::
  "tunables \<Rightarrow> zio_flag set \<Rightarrow> spa \<Rightarrow> nat \<Rightarrow> nat \<Rightarrow> vdev_queue \<Rightarrow> (vdev_queue \<times> nat) option" where
  "vdev_queue_io_done_loop tn agg sp search fresh vq =
     (case vdev_queue_io_to_issue tn agg sp search fresh vq of
        None \<Rightarrow> None
      | Some (vq', None, fresh') \<Rightarrow> Some (vq', fresh')
      | Some (vq', Some nio, fresh') \<Rightarrow> vdev_queue_io_done_loop tn agg sp search fresh' vq')"
  by pat_completeness auto
termination
  by (relation "measure (\<lambda>(tn, agg, sp, search, fresh, vq). total_queued vq)")
     (auto dest: to_issue_issued)

declare vdev_queue_io_done_loop.simps [simp del]

definition vdev_queue_io_done ::
  "tunables \<Rightarrow> zio_flag set \<Rightarrow> spa \<Rightarrow> nat \<Rightarrow> nat \<Rightarrow> vdev_queue \<Rightarrow> zio \<Rightarrow> (vdev_queue \<times> nat) option" where
  "vdev_queue_io_done tn agg sp search fresh vq zio =
     (case vdev_queue_pending_remove vq zio of
        None \<Rightarrow> None
      | Some vq1 \<Rightarrow> vdev_queue_io_done_loop tn agg sp search fresh vq1)"

text \<open>
  A history of one leaf device: requests enter through \<open>vdev_queue_io\<close> and
  complete through \<open>vdev_queue_io_done\<close>; each event carries what the pool shows
  at that moment.  The state is the queue and the next unused address.
\<close>

datatype vq_event = Enqueue zio "64 word" spa | Complete zio spa

fun vq_run ::
  "tunables \<Rightarrow> zio_flag set \<Rightarrow> nat \<Rightarrow> vq_event list \<Rightarrow> vdev_queue \<times> nat \<Rightarrow> (vdev_queue \<times> nat) option" where
  "vq_run tn agg search [] st = Some st"
| "vq_run tn agg search (Enqueue zio now sp # es) (vq, fresh) =
     (case vdev_queue_io tn agg sp search fresh now vq zio of
        None \<Rightarrow> None
      | Some (vq', r, fresh') \<Rightarrow> vq_run tn agg search es (vq', fresh'))"
| "vq_run tn agg search (Complete zio sp # es) (vq, fresh) =
     (case vdev_queue_io_done tn agg sp search fresh vq zio of
        None \<Rightarrow> None
      | Some (vq', fresh') \<Rightarrow> vq_run tn agg search es (vq', fresh'))"

text \<open>
  The mask \<open>ZIO_FLAG_AGG_INHERIT\<close> as the flags that describe the flavour of a
  request, two reads that carry their parent's priority, tunables that allow one
  active request per device, and a history of three events.
\<close>

definition agg_inherit_example :: "zio_flag set" where
  "agg_inherit_example = {ZIO_FLAG_DONT_AGGREGATE, ZIO_FLAG_IO_REPAIR, ZIO_FLAG_SELF_HEAL,
     ZIO_FLAG_RESILVER, ZIO_FLAG_SCRUB, ZIO_FLAG_SCAN_THREAD}"

definition read_req :: "nat \<Rightarrow> 64 word \<Rightarrow> zio" where
  "read_req i off = zio_zero\<lparr> io_id := i, io_type := ZIO_TYPE_READ,
      io_priority := ZIO_PRIORITY_NOW, io_offset := off, io_size := 4096 \<rparr>"

definition one_at_a_time :: tunables where
  "one_at_a_time = example_tunables\<lparr> zfs_vdev_max_active := 1 \<rparr>"

definition example_history :: "vq_event list" where
  "example_history =
     [Enqueue (read_req 1 0) 100 example_spa,
      Enqueue (read_req 2 8192) 101 example_spa,
      Complete (vdev_queue_io_prepare (read_req 1 0) 100) example_spa]"

text \<open>The bound of the device-wide maximum on the active tree.\<close>

definition active_bounded :: "tunables \<Rightarrow> vdev_queue \<Rightarrow> bool" where
  "active_bounded tn vq \<longleftrightarrow> length (vq_active_tree vq) \<le> unat (zfs_vdev_max_active tn)"

section \<open>I/O pipeline: errors and the parent/child protocol (zio.c)\<close>

text \<open>
  The error numbers \<open>zio.c\<close> names come from \<open>errno.h\<close> and are parameters of
  the model.  \<open>freebsd_errnos\<close> has the values of the FreeBSD kernel this code is
  built for.
\<close>

record errnos =
  ENXIO :: int
  ECKSUM :: int
  EIO :: int
  ENOSPC :: int

definition freebsd_errnos :: errnos where
  "freebsd_errnos = \<lparr> ENXIO = 6, ECKSUM = 122, EIO = 5, ENOSPC = 28 \<rparr>"

text \<open>
  \<open>zio_worst_error\<close>: the table \<open>zio_error_rank\<close>, the two searches (the rank of
  an error that is not in the table is the length of the table), and the choice.
\<close>

definition zio_error_rank :: "errnos \<Rightarrow> int list" where
  "zio_error_rank en = [0, ENXIO en, ECKSUM en, EIO en]"

fun rank_search :: "int \<Rightarrow> int list \<Rightarrow> nat" where
  "rank_search e [] = 0"
| "rank_search e (x # xs) = (if e = x then 0 else Suc (rank_search e xs))"

definition zio_worst_error :: "errnos \<Rightarrow> int \<Rightarrow> int \<Rightarrow> int" where
  "zio_worst_error en e1 e2 =
     (let r1 = rank_search e1 (zio_error_rank en);
          r2 = rank_search e2 (zio_error_rank en)
      in if r1 > r2 then e1 else e2)"

text \<open>
  The world the pipeline functions act on: the requests by address, a supply of
  addresses for links, a log of what the functions do to the outside (in the order
  they do it), and a flag that is raised when a function follows a pointer to a
  request that does not exist or panics.  \<open>next_zio\<close> is the address the next
  request created gets from \<open>zio_cache\<close>; \<open>spa_suspend_zio_root\<close> and
  \<open>spa_suspended\<close> are the two fields of the pool that \<open>zio_suspend\<close> writes.
\<close>

datatype event =
    Child_added nat nat
  | Child_removed nat nat
  | Stage_entered nat "32 word"
  | Metaslab_free blkptr "64 word"
  | Done_callback nat
  | Pool_suspended
  | Reexecute_dispatched nat
  | Issue_dispatched nat
  | Waiter_woken nat
  | Destroyed nat

record world =
  zios :: "nat \<Rightarrow> zio option"
  next_link :: nat
  next_zio :: nat
  spa_suspend_zio_root :: "nat option"
  spa_suspended :: bool
  trace :: "event list"
  fault :: bool

definition empty_world :: world where
  "empty_world = \<lparr> zios = Map.empty, next_link = 0, next_zio = 0, spa_suspend_zio_root = None,
                   spa_suspended = False, trace = [], fault = False \<rparr>"

definition upd_zio :: "world \<Rightarrow> nat \<Rightarrow> (zio \<Rightarrow> zio) \<Rightarrow> world" where
  "upd_zio w i f =
     (case zios w i of
        None \<Rightarrow> w\<lparr> fault := True \<rparr>
      | Some z \<Rightarrow> w\<lparr> zios := (zios w)(i \<mapsto> f z) \<rparr>)"

definition log_event :: "world \<Rightarrow> event \<Rightarrow> world" where
  "log_event w e = w\<lparr> trace := trace w @ [e] \<rparr>"

text \<open>
  \<open>zio_add_child\<close>: the parent's wait counts of the child's type grow by one
  for each phase the child has not reached (\<open>!cio->io_state[w]\<close>), the new link
  goes to the head of both lists, both counts grow.
\<close>

definition zio_add_child :: "world \<Rightarrow> nat \<Rightarrow> nat \<Rightarrow> world" where
  "zio_add_child w pio cio =
     (case (zios w pio, zios w cio) of
        (Some p, Some c) \<Rightarrow>
          let zl = \<lparr> zl_id = next_link w, zl_parent = pio, zl_child = cio \<rparr>;
              w1 = upd_zio w cio (\<lambda>c. c\<lparr> io_parent_list := zl # io_parent_list c,
                                          io_parent_count := io_parent_count c + 1 \<rparr>);
              w2 = upd_zio w1 pio (\<lambda>p. p\<lparr>
                     io_children := (\<lambda>ct wt. if ct = io_child_type c
                                              then io_children p ct wt + (if io_state c wt then 0 else 1)
                                              else io_children p ct wt),
                     io_child_list := zl # io_child_list p,
                     io_child_count := io_child_count p + 1 \<rparr>)
          in log_event (w2\<lparr> next_link := Suc (next_link w) \<rparr>) (Child_added pio cio)
      | _ \<Rightarrow> w\<lparr> fault := True \<rparr>)"

definition list_remove :: "zio_link \<Rightarrow> zio_link list \<Rightarrow> zio_link list" where
  "list_remove zl ls = filter (\<lambda>l. zl_id l \<noteq> zl_id zl) ls"

definition zio_remove_child :: "world \<Rightarrow> nat \<Rightarrow> nat \<Rightarrow> zio_link \<Rightarrow> world" where
  "zio_remove_child w pio cio zl =
     (let w1 = upd_zio w pio (\<lambda>p. p\<lparr> io_child_list := list_remove zl (io_child_list p),
                                       io_child_count := io_child_count p - 1 \<rparr>);
          w2 = upd_zio w1 cio (\<lambda>c. c\<lparr> io_parent_list := list_remove zl (io_parent_list c),
                                        io_parent_count := io_parent_count c - 1 \<rparr>)
      in log_event w2 (Child_removed pio cio))"

text \<open>
  \<open>zio_wait_for_children\<close>, on the request itself: with children of that type
  outstanding in that phase the stage steps back by one bit and the request
  stalls on the counter.
\<close>

definition zio_wait_for_children :: "zio \<Rightarrow> zio_child \<Rightarrow> zio_wait_type \<Rightarrow> bool \<times> zio" where
  "zio_wait_for_children zio child wt =
     (if io_children zio child wt \<noteq> 0
      then (True, zio\<lparr> io_stage := drop_bit 1 (io_stage zio), io_stall := Some (child, wt) \<rparr>)
      else (False, zio))"

text \<open>
  \<open>zio_notify_parent\<close>, on the parent record: the result is the parent and
  whether \<open>zio_execute(pio)\<close> is called.
\<close>

definition zio_notify_parent :: "errnos \<Rightarrow> zio \<Rightarrow> zio \<Rightarrow> zio_wait_type \<Rightarrow> zio \<times> bool" where
  "zio_notify_parent en pio zio wt =
     (let ct = io_child_type zio;
          p1 = (if io_error zio \<noteq> 0 \<and> ZIO_FLAG_DONT_PROPAGATE \<notin> io_flags zio
                then pio\<lparr> io_child_error := (io_child_error pio)
                            (ct := zio_worst_error en (io_child_error pio ct) (io_error zio)) \<rparr>
                else pio);
          p2 = p1\<lparr> io_reexecute := io_reexecute p1 \<union> io_reexecute zio \<rparr>;
          p3 = p2\<lparr> io_children := (\<lambda>c w. if c = ct \<and> w = wt then io_children p2 c w - 1
                                         else io_children p2 c w) \<rparr>
      in if io_children p3 ct wt = 0 \<and> io_stall p3 = Some (ct, wt)
         then (p3\<lparr> io_stall := None \<rparr>, True)
         else (p3, False))"

definition zio_inherit_child_errors :: "zio \<Rightarrow> zio_child \<Rightarrow> zio" where
  "zio_inherit_child_errors zio c =
     (if io_child_error zio c \<noteq> 0 \<and> io_error zio = 0
      then zio\<lparr> io_error := io_child_error zio c \<rparr> else zio)"

text \<open>
  The same notification in the world: the child \<open>cio\<close> notifies its parent
  \<open>pio\<close>.  When the parent was stalled on the counter that reaches zero,
  \<open>zio_notify_parent\<close> calls \<open>zio_execute(pio)\<close> on the spot, after the
  parent's lock is released.  \<open>zio_execute\<close> is defined further down, from the
  stage handlers, and the handlers \<open>zio_ready\<close> and \<open>zio_done\<close> notify
  parents; so every function on the way takes the executor, the function that
  \<open>zio_execute\<close> is, as an argument.  An executor gives \<open>None\<close> when it does
  not return.
\<close>

type_synonym executor = "world \<Rightarrow> nat \<Rightarrow> world option"

definition notify_parent_in ::
  "errnos \<Rightarrow> executor \<Rightarrow> world \<Rightarrow> nat \<Rightarrow> nat \<Rightarrow> zio_wait_type \<Rightarrow> world option" where
  "notify_parent_in en exec w pio cio wt =
     (case (zios w pio, zios w cio) of
        (Some p, Some c) \<Rightarrow>
          (case zio_notify_parent en p c wt of
             (p', run) \<Rightarrow>
               let w1 = w\<lparr> zios := (zios w)(pio \<mapsto> p') \<rparr>
               in if run then exec w1 pio else Some w1)
      | _ \<Rightarrow> Some (w\<lparr> fault := True \<rparr>))"

section \<open>I/O pipeline: the done stage (zio.c)\<close>

text \<open>
  \<open>zio_dva_unallocate\<close>: the blocks it hands to \<open>metaslab_free\<close>, in order.  The
  block pointer itself unless it is a hole, then, for every slot of the gang node,
  the same for the slot's block pointer and child node.
\<close>

fun zio_dva_unallocate :: "zio_gang_node option \<Rightarrow> blkptr \<Rightarrow> event list" where
  "zio_dva_unallocate None bp =
     (if \<not> bp_is_hole bp then [Metaslab_free bp (blk_birth bp)] else [])"
| "zio_dva_unallocate (Some (Gang_Node slots)) bp =
     (if \<not> bp_is_hole bp then [Metaslab_free bp (blk_birth bp)] else []) @
     concat (map (\<lambda>(gbp, child). zio_dva_unallocate child gbp) slots)"

text \<open>
  What \<open>zio_done\<close> asks of its surroundings: whether a decompression transform
  fails in \<open>zio_pop_transforms\<close>, whether the pool is past loading
  (\<open>spa_load_state(spa) == SPA_LOAD_NONE\<close>) and the failure mode of the pool
  (\<open>spa_get_failmode\<close>).
\<close>

datatype zio_failure_mode =
  ZIO_FAILURE_MODE_WAIT | ZIO_FAILURE_MODE_CONTINUE | ZIO_FAILURE_MODE_PANIC

record done_env =
  decompress_fails :: bool
  spa_load_none :: bool
  spa_failmode :: zio_failure_mode

definition IO_IS_ALLOCATING :: "zio \<Rightarrow> bool" where
  "IO_IS_ALLOCATING zio \<longleftrightarrow> io_orig_pipeline zio AND ZIO_STAGE_DVA_ALLOCATE \<noteq> 0"

text \<open>The four waits at the head of \<open>zio_done\<close>, joined by \<open>||\<close>.\<close>

definition zio_done_wait :: "zio \<Rightarrow> bool \<times> zio" where
  "zio_done_wait zio =
     (case zio_wait_for_children zio ZIO_CHILD_VDEV ZIO_WAIT_DONE of
        (True, z) \<Rightarrow> (True, z)
      | (False, z) \<Rightarrow>
     (case zio_wait_for_children z ZIO_CHILD_GANG ZIO_WAIT_DONE of
        (True, z) \<Rightarrow> (True, z)
      | (False, z) \<Rightarrow>
     (case zio_wait_for_children z ZIO_CHILD_DDT ZIO_WAIT_DONE of
        (True, z) \<Rightarrow> (True, z)
      | (False, z) \<Rightarrow> zio_wait_for_children z ZIO_CHILD_LOGICAL ZIO_WAIT_DONE)))"

text \<open>
  From the inheritance of vdev, gang and ddt child errors to the inheritance of
  logical child errors: \<open>zio_pop_transforms\<close> (which may set the error when a
  decompression fails), the decision to reexecute a failed logical request, and
  the four together.
\<close>

definition zio_done_pop_transforms :: "errnos \<Rightarrow> done_env \<Rightarrow> zio \<Rightarrow> zio" where
  "zio_done_pop_transforms en env zio =
     (if io_error zio = 0 \<and> decompress_fails env then zio\<lparr> io_error := EIO en \<rparr> else zio)"

definition zio_done_reexecute_bits :: "errnos \<Rightarrow> done_env \<Rightarrow> zio \<Rightarrow> zio_reexecute set" where
  "zio_done_reexecute_bits en env zio =
     (let r1 = io_reexecute zio \<union>
                 (if IO_IS_ALLOCATING zio \<and> ZIO_FLAG_CANFAIL \<notin> io_flags zio
                  then (if io_error zio \<noteq> ENOSPC en then {ZIO_REEXECUTE_NOW}
                        else {ZIO_REEXECUTE_SUSPEND})
                  else {});
          r2 = r1 \<union>
                 (if (io_type zio = ZIO_TYPE_READ \<or> io_type zio = ZIO_TYPE_FREE) \<and>
                     ZIO_FLAG_SCAN_THREAD \<notin> io_flags zio \<and>
                     io_error zio = ENXIO en \<and>
                     spa_load_none env \<and> spa_failmode env \<noteq> ZIO_FAILURE_MODE_CONTINUE
                  then {ZIO_REEXECUTE_SUSPEND} else {})
      in r2 \<union> (if ZIO_FLAG_CANFAIL \<notin> io_flags zio \<and> r2 = {}
                then {ZIO_REEXECUTE_SUSPEND} else {}))"

definition zio_done_decide :: "errnos \<Rightarrow> done_env \<Rightarrow> zio \<Rightarrow> zio" where
  "zio_done_decide en env zio =
     (if io_error zio \<noteq> 0 \<and> io_logical zio = Some (io_id zio)
      then zio\<lparr> io_reexecute := zio_done_reexecute_bits en env zio \<rparr> else zio)"

definition zio_done_errors :: "errnos \<Rightarrow> done_env \<Rightarrow> zio \<Rightarrow> zio" where
  "zio_done_errors en env zio =
     zio_inherit_child_errors
       (zio_done_decide en env
          (zio_done_pop_transforms en env
             (zio_inherit_child_errors
                (zio_inherit_child_errors
                   (zio_inherit_child_errors zio ZIO_CHILD_VDEV) ZIO_CHILD_GANG) ZIO_CHILD_DDT)))
       ZIO_CHILD_LOGICAL"

text \<open>
  The unwinding of an allocation: the condition and the frees.  \<open>None\<close> is a
  null block pointer handed to \<open>zio_dva_unallocate\<close>.
\<close>

definition zio_done_unallocates :: "zio \<Rightarrow> bool" where
  "zio_done_unallocates zio \<longleftrightarrow>
     (io_error zio \<noteq> 0 \<or> io_reexecute zio \<noteq> {}) \<and>
     IO_IS_ALLOCATING zio \<and> io_gang_leader zio = Some (io_id zio) \<and>
     ZIO_FLAG_IO_REWRITE \<notin> io_flags zio \<and> ZIO_FLAG_NOPWRITE \<notin> io_flags zio"

definition zio_done_frees :: "zio \<Rightarrow> event list option" where
  "zio_done_frees zio =
     (if zio_done_unallocates zio then
        (case io_bp zio of
           None \<Rightarrow> None
         | Some bp \<Rightarrow> Some (zio_dva_unallocate (io_gang_tree zio) bp))
      else Some [])"

text \<open>
  \<open>zio_root\<close>, which is \<open>zio_null\<close> without parent and device, which is
  \<open>zio_create(NULL, spa, 0, NULL, NULL, 0, done, private, ZIO_TYPE_NULL,
  ZIO_PRIORITY_NOW, flags, NULL, 0, NULL, ZIO_STAGE_OPEN, ZIO_INTERLOCK_PIPELINE)\<close>:
  a zeroed request at a new address, with the child type its flags give it.  The
  result is the address and the world.
\<close>

definition zio_root :: "world \<Rightarrow> zio_done_func option \<Rightarrow> zio_flag set \<Rightarrow> nat \<times> world" where
  "zio_root w done flags =
     (let i = next_zio w;
          zio = zio_zero\<lparr> io_id := i,
                  io_child_type := (if ZIO_FLAG_GANG_CHILD \<in> flags then ZIO_CHILD_GANG
                                    else if ZIO_FLAG_DDT_CHILD \<in> flags then ZIO_CHILD_DDT
                                    else ZIO_CHILD_LOGICAL),
                  io_done := done, io_type := ZIO_TYPE_NULL, io_priority := ZIO_PRIORITY_NOW,
                  io_flags := flags, io_orig_flags := flags,
                  io_stage := ZIO_STAGE_OPEN, io_orig_stage := ZIO_STAGE_OPEN,
                  io_pipeline := ZIO_INTERLOCK_PIPELINE,
                  io_orig_pipeline := ZIO_INTERLOCK_PIPELINE,
                  io_state := (\<lambda>wt. case wt of
                                  ZIO_WAIT_READY \<Rightarrow> ZIO_STAGE_READY \<le> ZIO_STAGE_OPEN
                                | ZIO_WAIT_DONE \<Rightarrow> ZIO_STAGE_DONE \<le> ZIO_STAGE_OPEN) \<rparr>
      in (i, w\<lparr> zios := (zios w)(i \<mapsto> zio), next_zio := Suc i \<rparr>))"

text \<open>
  \<open>zio_suspend\<close>: a panic when the failure mode asks for one; else the report
  of the failure and the suspension of the pool (logged as \<open>Pool_suspended\<close>),
  with the request, if there is one, made a child of the root of the suspended
  requests, which \<open>suspend_root\<close> creates when it is not there.
\<close>

definition suspend_root :: "world \<Rightarrow> nat \<times> world" where
  "suspend_root w =
     (case spa_suspend_zio_root w of
        None \<Rightarrow>
          (case zio_root w None {ZIO_FLAG_CANFAIL, ZIO_FLAG_SPECULATIVE, ZIO_FLAG_GODFATHER} of
             (r, w') \<Rightarrow> (r, w'\<lparr> spa_suspend_zio_root := Some r \<rparr>))
      | Some r \<Rightarrow> (r, w))"

definition zio_suspend :: "done_env \<Rightarrow> world \<Rightarrow> nat option \<Rightarrow> world" where
  "zio_suspend env w zio =
     (if spa_failmode env = ZIO_FAILURE_MODE_PANIC then w\<lparr> fault := True \<rparr>
      else
        let rw = suspend_root (log_event w Pool_suspended);
            w3 = (snd rw)\<lparr> spa_suspended := True \<rparr>
        in (case zio of None \<Rightarrow> w3 | Some i \<Rightarrow> zio_add_child w3 (fst rw) i))"

text \<open>
  The two walks over the parents.  On the way to reexecution a request cuts its
  tie to a godfather parent when it is about to suspend; on completion it leaves
  every parent and notifies it.  The walks go over the parent list as it is when
  they start: a parent that comes in later goes to the head of the list and is not
  visited.
\<close>

fun done_sever_godfathers ::
  "errnos \<Rightarrow> executor \<Rightarrow> world \<Rightarrow> nat \<Rightarrow> zio_link list \<Rightarrow> world option" where
  "done_sever_godfathers en exec w cio [] = Some w"
| "done_sever_godfathers en exec w cio (zl # ls) =
     (case (zios w (zl_parent zl), zios w cio) of
        (Some p, Some c) \<Rightarrow>
          if ZIO_FLAG_GODFATHER \<in> io_flags p \<and> ZIO_REEXECUTE_SUSPEND \<in> io_reexecute c
          then (case notify_parent_in en exec (zio_remove_child w (zl_parent zl) cio zl)
                       (zl_parent zl) cio ZIO_WAIT_DONE of
                  None \<Rightarrow> None
                | Some w' \<Rightarrow> done_sever_godfathers en exec w' cio ls)
          else done_sever_godfathers en exec w cio ls
      | _ \<Rightarrow> Some (w\<lparr> fault := True \<rparr>))"

fun done_notify_all ::
  "errnos \<Rightarrow> executor \<Rightarrow> world \<Rightarrow> nat \<Rightarrow> zio_link list \<Rightarrow> world option" where
  "done_notify_all en exec w cio [] = Some w"
| "done_notify_all en exec w cio (zl # ls) =
     (case notify_parent_in en exec (zio_remove_child w (zl_parent zl) cio zl)
             (zl_parent zl) cio ZIO_WAIT_DONE of
        None \<Rightarrow> None
      | Some w' \<Rightarrow> done_notify_all en exec w' cio ls)"

text \<open>
  The path of a request that wants to reexecute, after the godfathers are gone:
  with a parent left (\<open>zio_unique_parent\<close>, which panics on a second one) the
  request sets the do-not-propagate flag and notifies it; without one it is
  suspended or handed to \<open>zio_reexecute\<close> on a task queue.
\<close>

definition done_reexecute_tail ::
  "errnos \<Rightarrow> done_env \<Rightarrow> executor \<Rightarrow> world \<Rightarrow> nat \<Rightarrow> world option" where
  "done_reexecute_tail en env exec w cio =
     (case zios w cio of
        None \<Rightarrow> Some (w\<lparr> fault := True \<rparr>)
      | Some c \<Rightarrow>
          (case io_parent_list c of
             [] \<Rightarrow> if ZIO_REEXECUTE_SUSPEND \<in> io_reexecute c
                   then Some (zio_suspend env w (Some cio))
                   else Some (log_event w (Reexecute_dispatched cio))
           | [zl] \<Rightarrow>
               notify_parent_in en exec
                 (upd_zio w cio (\<lambda>c. c\<lparr> io_flags := io_flags c \<union> {ZIO_FLAG_DONT_PROPAGATE} \<rparr>))
                 (zl_parent zl) cio ZIO_WAIT_DONE
           | _ \<Rightarrow> Some (w\<lparr> fault := True \<rparr>)))"

text \<open>
  The end of \<open>zio_done\<close> for a request that wants to reexecute (it stays, with
  its done state set, and tells its parent or is suspended or redispatched) and
  for one that completes (the done callback, the done state, the parents, and
  the waiter or the destruction of the request).
\<close>

definition zio_done_reexecute ::
  "errnos \<Rightarrow> done_env \<Rightarrow> executor \<Rightarrow> world \<Rightarrow> nat \<Rightarrow> zio \<Rightarrow> world option" where
  "zio_done_reexecute en env exec w i z =
     (let z7 = z\<lparr> io_gang_leader := None, io_state := (io_state z)(ZIO_WAIT_DONE := True) \<rparr>;
          w2 = w\<lparr> zios := (zios w)(i \<mapsto> z7) \<rparr>
      in case done_sever_godfathers en exec w2 i (io_parent_list z7) of
           None \<Rightarrow> None
         | Some w3 \<Rightarrow> done_reexecute_tail en env exec w3 i)"

definition done_finish :: "world \<Rightarrow> nat \<Rightarrow> world" where
  "done_finish w i =
     (case zios w i of
        None \<Rightarrow> w\<lparr> fault := True \<rparr>
      | Some c \<Rightarrow>
          if io_waiter c
          then log_event (w\<lparr> zios := (zios w)(i \<mapsto> c\<lparr> io_executor := False \<rparr>) \<rparr>) (Waiter_woken i)
          else log_event (w\<lparr> zios := (zios w)(i := None) \<rparr>) (Destroyed i))"

definition done_callback :: "world \<Rightarrow> nat \<Rightarrow> zio \<Rightarrow> world" where
  "done_callback w i z =
     (let w2 = (if io_done z \<noteq> None then log_event w (Done_callback i) else w)
      in w2\<lparr> zios := (zios w2)(i \<mapsto> z\<lparr> io_state := (io_state z)(ZIO_WAIT_DONE := True) \<rparr>) \<rparr>)"

definition zio_done_complete :: "errnos \<Rightarrow> executor \<Rightarrow> world \<Rightarrow> nat \<Rightarrow> zio \<Rightarrow> world option" where
  "zio_done_complete en exec w i z =
     (case done_notify_all en exec (done_callback w i z) i (io_parent_list z) of
        None \<Rightarrow> None
      | Some w4 \<Rightarrow> Some (done_finish w4 i))"

text \<open>
  \<open>zio_done\<close>.  The result is \<open>True\<close> for \<open>ZIO_PIPELINE_STOP\<close> (the function
  never returns anything else) and the world.  Not modelled: the checksum
  reports, \<open>vdev_stat_update\<close> and the error reports, which touch neither the
  request nor its relatives.
\<close>

definition zio_done ::
  "errnos \<Rightarrow> done_env \<Rightarrow> executor \<Rightarrow> world \<Rightarrow> nat \<Rightarrow> (bool \<times> world) option" where
  "zio_done en env exec w i =
     (case zios w i of
        None \<Rightarrow> Some (True, w\<lparr> fault := True \<rparr>)
      | Some z0 \<Rightarrow>
          (case zio_done_wait z0 of
             (True, z) \<Rightarrow> Some (True, w\<lparr> zios := (zios w)(i \<mapsto> z) \<rparr>)
           | (False, z) \<Rightarrow>
               let z4 = zio_done_errors en env z in
               (case zio_done_frees z4 of
                  None \<Rightarrow> Some (True, w\<lparr> fault := True \<rparr>)
                | Some frees \<Rightarrow>
                    let z5 = z4\<lparr> io_gang_tree := None \<rparr>;
                        z6 = (if ZIO_FLAG_GODFATHER \<in> io_flags z5 \<and>
                                 ZIO_REEXECUTE_SUSPEND \<in> io_reexecute z5
                              then z5\<lparr> io_reexecute := {} \<rparr> else z5);
                        w1 = w\<lparr> trace := trace w @ frees \<rparr>
                    in map_option (Pair True)
                         (if io_reexecute z6 \<noteq> {}
                          then zio_done_reexecute en env exec w1 i z6
                          else zio_done_complete en exec w1 i z6))))"

text \<open>
  The ranking of errors in the words of the specification:
  \<open>0 < ENXIO < ECKSUM < EIO <\<close> any other error.
\<close>

definition spec_error_rank :: "errnos \<Rightarrow> int \<Rightarrow> nat" where
  "spec_error_rank en e =
     (if e = 0 then 0 else if e = ENXIO en then 1 else if e = ECKSUM en then 2
      else if e = EIO en then 3 else 4)"

text \<open>
  The error a request with no error of its own has after the inheritance of
  \<open>zio_done\<close>, written out: the first record that is not zero in the order
  vdev, gang, ddt; failing these the error of a failed decompression; failing
  that the logical record.
\<close>

definition inherited_error :: "errnos \<Rightarrow> done_env \<Rightarrow> zio \<Rightarrow> int" where
  "inherited_error en env z =
     (if io_child_error z ZIO_CHILD_VDEV \<noteq> 0 then io_child_error z ZIO_CHILD_VDEV
      else if io_child_error z ZIO_CHILD_GANG \<noteq> 0 then io_child_error z ZIO_CHILD_GANG
      else if io_child_error z ZIO_CHILD_DDT \<noteq> 0 then io_child_error z ZIO_CHILD_DDT
      else if decompress_fails env \<and> EIO en \<noteq> 0 then EIO en
      else io_child_error z ZIO_CHILD_LOGICAL)"

text \<open>
  A logical request with a checksum error already recorded from an earlier child,
  and a child of it that fails with \<open>EIO\<close> and may fail
  (\<open>ZIO_FLAG_CANFAIL\<close>); the world in which the two are linked.
\<close>

definition example_parent :: zio where
  "example_parent = zio_zero\<lparr> io_id := 1, io_child_type := ZIO_CHILD_LOGICAL,
      io_stage := ZIO_STAGE_READY, io_pipeline := ZIO_INTERLOCK_PIPELINE,
      io_flags := {ZIO_FLAG_CANFAIL}, io_logical := Some 1,
      io_child_error := (\<lambda>c. if c = ZIO_CHILD_LOGICAL then 122 else 0) \<rparr>"

definition example_child :: zio where
  "example_child = zio_zero\<lparr> io_id := 2, io_child_type := ZIO_CHILD_LOGICAL,
      io_stage := ZIO_STAGE_READY, io_pipeline := ZIO_INTERLOCK_PIPELINE,
      io_flags := {ZIO_FLAG_CANFAIL}, io_logical := Some 2, io_error := 5,
      io_state := (\<lambda>w. w = ZIO_WAIT_READY) \<rparr>"

definition example_world :: world where
  "example_world =
     zio_add_child
       (empty_world\<lparr> zios := [1 \<mapsto> example_parent, 2 \<mapsto> example_child], next_zio := 3 \<rparr>) 1 2"

definition example_env :: done_env where
  "example_env = \<lparr> decompress_fails = False, spa_load_none = True,
                   spa_failmode = ZIO_FAILURE_MODE_WAIT \<rparr>"

definition linked_child :: zio where
  "linked_child = example_child\<lparr> io_parent_list := [\<lparr> zl_id = 0, zl_parent = 1, zl_child = 2 \<rparr>],
                                  io_parent_count := 1 \<rparr>"

text \<open>
  A parent with no error of its own whose children have left it the error 5
  (\<open>EIO\<close>) under the logical type and the error 6 (\<open>ENXIO\<close>) under the vdev
  type.
\<close>

definition two_record_parent :: zio where
  "two_record_parent = zio_zero\<lparr> io_id := 1, io_child_type := ZIO_CHILD_LOGICAL,
      io_stage := ZIO_STAGE_DONE, io_pipeline := ZIO_INTERLOCK_PIPELINE,
      io_flags := {ZIO_FLAG_CANFAIL}, io_logical := Some 1,
      io_child_error := (\<lambda>c. if c = ZIO_CHILD_LOGICAL then 5
                                else if c = ZIO_CHILD_VDEV then 6 else 0) \<rparr>"

text \<open>
  The blocks allocated on behalf of a write: its own block pointer and the block
  pointers of its gang tree, holes apart.
\<close>

fun gang_tree_blocks :: "zio_gang_node option \<Rightarrow> blkptr set" where
  "gang_tree_blocks None = {}"
| "gang_tree_blocks (Some (Gang_Node slots)) =
     (\<Union>(gbp, child) \<in> set slots.
        (if bp_is_hole gbp then {} else {gbp}) \<union> gang_tree_blocks child)"

definition allocated_blocks :: "zio_gang_node option \<Rightarrow> blkptr \<Rightarrow> blkptr set" where
  "allocated_blocks gn bp = (if bp_is_hole bp then {} else {bp}) \<union> gang_tree_blocks gn"

text \<open>
  \<open>adds P w w'\<close>: the log of \<open>w'\<close> continues the log of \<open>w\<close> with events that
  satisfy \<open>P\<close>.  An executor is \<open>adding P\<close> when every run of it that returns
  does so, and it \<open>appends\<close> when every run that returns continues the log.
  \<open>is_entry\<close> tells the calls of stage handlers in a log from the rest.
\<close>

definition adds :: "(event \<Rightarrow> bool) \<Rightarrow> world \<Rightarrow> world \<Rightarrow> bool" where
  "adds P w w' \<longleftrightarrow> (\<exists>rest. trace w' = trace w @ rest \<and> list_all P rest)"

definition adding :: "(event \<Rightarrow> bool) \<Rightarrow> executor \<Rightarrow> bool" where
  "adding P exec \<longleftrightarrow> (\<forall>w i w'. exec w i = Some w' \<longrightarrow> adds P w w')"


fun is_entry :: "event \<Rightarrow> bool" where
  "is_entry (Stage_entered i s) = True"
| "is_entry _ = False"






section \<open>I/O pipeline: stage handlers and the execution loop (zio.c)\<close>

text \<open>
  A stage handler (\<open>zio_pipe_stage_t\<close>) acts on the world and the address of
  its request; the result is \<open>True\<close> for \<open>ZIO_PIPELINE_STOP\<close> and \<open>False\<close> for
  \<open>ZIO_PIPELINE_CONTINUE\<close>, with the world, and \<open>None\<close> when the handler does
  not return.
\<close>

type_synonym zio_pipe_stage = "world \<Rightarrow> nat \<Rightarrow> (bool \<times> world) option"

text \<open>
  \<open>highbit64\<close> (one more than the index of the highest bit set, zero for zero)
  comes from the system headers; \<open>zio_execute\<close> applies it to the stage.
\<close>

fun highbit_nat :: "nat \<Rightarrow> nat" where
  "highbit_nat n = (if n = 0 then 0 else Suc (highbit_nat (n div 2)))"

declare highbit_nat.simps [simp del]

definition highbit64 :: "32 word \<Rightarrow> nat" where
  "highbit64 stage = highbit_nat (unat stage)"

text \<open>
  The inner loop of \<open>zio_execute\<close>,
  \<open>do { stage <<= 1; } while ((stage & pipeline) == 0)\<close>.  It does not end when
  the pipeline has no bit above the stage: the stage becomes zero and stays so.
\<close>

partial_function (option) zio_next_stage :: "32 word \<Rightarrow> 32 word \<Rightarrow> 32 word option" where
  "zio_next_stage pipeline stage =
     (let s = push_bit 1 stage
      in if s AND pipeline \<noteq> 0 then Some s else zio_next_stage pipeline s)"

declare zio_next_stage.simps [code]

text \<open>
  \<open>zio_issue_async\<close>: the request is handed to an issue task queue, which
  will call \<open>zio_execute\<close> on it.
\<close>

definition zio_issue_async :: zio_pipe_stage where
  "zio_issue_async w i = Some (True, log_event w (Issue_dispatched i))"

text \<open>
  \<open>zio_checksum_generate\<close> computes a checksum into the block pointer or the
  data, neither of which the model keeps, and continues.
\<close>

definition zio_checksum_generate :: zio_pipe_stage where
  "zio_checksum_generate w i =
     (case zios w i of
        None \<Rightarrow> Some (True, w\<lparr> fault := True \<rparr>)
      | Some z \<Rightarrow> Some (False, w))"

text \<open>
  \<open>zio_ready\<close>.  \<open>gang\<close> is the macro \<open>BP_IS_GANG\<close>.  Not modelled: the
  ready callback, the copy of the block pointer and the injection of ignored
  writes.
\<close>

definition zio_ready_wait :: "zio \<Rightarrow> bool \<times> zio" where
  "zio_ready_wait zio =
     (case zio_wait_for_children zio ZIO_CHILD_GANG ZIO_WAIT_READY of
        (True, z) \<Rightarrow> (True, z)
      | (False, z) \<Rightarrow> zio_wait_for_children z ZIO_CHILD_DDT ZIO_WAIT_READY)"

fun ready_notify_all ::
  "errnos \<Rightarrow> executor \<Rightarrow> world \<Rightarrow> nat \<Rightarrow> zio_link list \<Rightarrow> world option" where
  "ready_notify_all en exec w cio [] = Some w"
| "ready_notify_all en exec w cio (zl # ls) =
     (case notify_parent_in en exec w (zl_parent zl) cio ZIO_WAIT_READY of
        None \<Rightarrow> None
      | Some w' \<Rightarrow> ready_notify_all en exec w' cio ls)"

definition zio_ready_nodata :: "(blkptr \<Rightarrow> bool) \<Rightarrow> world \<Rightarrow> nat \<Rightarrow> bool \<times> world" where
  "zio_ready_nodata gang w i =
     (case zios w i of
        None \<Rightarrow> (True, w\<lparr> fault := True \<rparr>)
      | Some z \<Rightarrow>
          if ZIO_FLAG_NODATA \<in> io_flags z then
            (case io_bp z of
               None \<Rightarrow> (True, w\<lparr> fault := True \<rparr>)
             | Some bp \<Rightarrow>
                 if gang bp
                 then (False, w\<lparr> zios := (zios w)
                                  (i \<mapsto> z\<lparr> io_flags := io_flags z - {ZIO_FLAG_NODATA} \<rparr>) \<rparr>)
                 else (False, w\<lparr> zios := (zios w)
                                  (i \<mapsto> z\<lparr> io_pipeline :=
                                             io_pipeline z AND NOT ZIO_VDEV_IO_STAGES \<rparr>) \<rparr>))
          else (False, w))"

definition zio_ready :: "errnos \<Rightarrow> (blkptr \<Rightarrow> bool) \<Rightarrow> executor \<Rightarrow> zio_pipe_stage" where
  "zio_ready en gang exec w i =
     (case zios w i of
        None \<Rightarrow> Some (True, w\<lparr> fault := True \<rparr>)
      | Some z0 \<Rightarrow>
          (case zio_ready_wait z0 of
             (True, z) \<Rightarrow> Some (True, w\<lparr> zios := (zios w)(i \<mapsto> z) \<rparr>)
           | (False, z) \<Rightarrow>
               let z1 = (if io_error z \<noteq> 0 then z\<lparr> io_pipeline := ZIO_INTERLOCK_PIPELINE \<rparr>
                         else z);
                   z2 = z1\<lparr> io_state := (io_state z1)(ZIO_WAIT_READY := True) \<rparr>;
                   w1 = w\<lparr> zios := (zios w)(i \<mapsto> z2) \<rparr>
               in map_option (\<lambda>w2. zio_ready_nodata gang w2 i)
                    (ready_notify_all en exec w1 i (io_parent_list z2))))"

text \<open>
  \<open>zio_ddt_write\<close>, as far as the stage and the pipeline go.  What the stage
  learns from the dedup table is given: whether \<open>zio_ddt_collision\<close> finds
  one, the field \<open>ci_dedup\<close> of the checksum table, the checksum
  \<open>spa_dedup_checksum\<close>, whether more ditto copies are needed than present
  with no ditto write under way, and, in \<open>ddt_issue\<close>, what the stage does when
  it does not restart (it fills the entry and creates and starts child writes;
  \<open>None\<close> when that does not return).  \<open>BP_ZERO\<close> leaves a hole.  Not
  modelled: \<open>zio_pop_transforms\<close>.
\<close>

record ddt_env =
  ddt_collision :: bool
  ci_dedup :: "nat \<Rightarrow> bool"
  spa_dedup_checksum :: nat
  ditto_wanted :: bool
  ddt_issue :: "world \<Rightarrow> nat \<Rightarrow> world option"

definition BP_ZERO :: blkptr where
  "BP_ZERO = \<lparr> blk_ident = 0, blk_birth = 0, bp_is_hole = True \<rparr>"

definition zio_ddt_write :: "ddt_env \<Rightarrow> zio_pipe_stage" where
  "zio_ddt_write dd w i =
     (case zios w i of
        None \<Rightarrow> Some (True, w\<lparr> fault := True \<rparr>)
      | Some z \<Rightarrow>
          (case io_bp z of
             None \<Rightarrow> Some (True, w\<lparr> fault := True \<rparr>)
           | Some bp \<Rightarrow>
               if zp_dedup_verify (io_prop z) \<and> ddt_collision dd then
                 (let z1 = (if \<not> ci_dedup dd (zp_checksum (io_prop z))
                            then z\<lparr> io_prop := (io_prop z)\<lparr> zp_checksum := spa_dedup_checksum dd \<rparr>,
                                    io_stage := ZIO_STAGE_OPEN, io_bp := Some BP_ZERO \<rparr>
                            else z\<lparr> io_prop := (io_prop z)\<lparr> zp_dedup := False \<rparr> \<rparr>)
                  in Some (False, w\<lparr> zios := (zios w)
                                      (i \<mapsto> z1\<lparr> io_pipeline := ZIO_WRITE_PIPELINE \<rparr>) \<rparr>))
               else if ditto_wanted dd \<and> io_bp_override z \<noteq> None then
                 Some (False, w\<lparr> zios := (zios w)
                                  (i \<mapsto> z\<lparr> io_stage := ZIO_STAGE_OPEN,
                                           io_pipeline := ZIO_WRITE_PIPELINE,
                                           io_bp_override := None, io_bp := Some BP_ZERO \<rparr>) \<rparr>)
               else map_option (Pair False) (ddt_issue dd w i)))"

text \<open>
  The table \<open>zio_pipeline[]\<close>: no handler at index 0, the handlers modelled
  above at their indices, and \<open>other\<close> for the handlers that are not modelled.
  An index past the table has no handler either.  \<open>exec\<close> is the executor the
  handlers call for nested runs.
\<close>

definition zio_pipeline ::
  "errnos \<Rightarrow> done_env \<Rightarrow> (blkptr \<Rightarrow> bool) \<Rightarrow> ddt_env \<Rightarrow> (nat \<Rightarrow> zio_pipe_stage) \<Rightarrow>
   executor \<Rightarrow> nat \<Rightarrow> zio_pipe_stage option" where
  "zio_pipeline en env gang dd other exec n =
     (if n = 0 \<or> 22 \<le> n then None
      else if n = 3 then Some zio_issue_async
      else if n = 5 then Some zio_checksum_generate
      else if n = 9 then Some (zio_ddt_write dd)
      else if n = 16 then Some (zio_ready en gang exec)
      else if n = 21 then Some (zio_done en env exec)
      else Some (other n))"

text \<open>
  \<open>zio_execute\<close>, for a given table of handlers.  \<open>blocking_stages\<close> is the
  mask \<open>ZIO_BLOCKING_STAGES\<close> and \<open>on_interrupt_taskq\<close> the answer of
  \<open>zio_taskq_member(zio, ZIO_TASKQ_INTERRUPT)\<close>.  The call of a handler is
  logged as \<open>Stage_entered\<close>.  \<open>None\<close> is a loop that does not end or a
  handler that does not return; a missing handler and a request that is gone raise
  the fault flag.
\<close>

record exec_env =
  blocking_stages :: "32 word"
  on_interrupt_taskq :: bool

partial_function (option) zio_execute_loop ::
  "exec_env \<Rightarrow> (nat \<Rightarrow> zio_pipe_stage option) \<Rightarrow> world \<Rightarrow> nat \<Rightarrow> world option" where
  "zio_execute_loop ee table w i =
     (case zios w i of
        None \<Rightarrow> Some (w\<lparr> fault := True \<rparr>)
      | Some z \<Rightarrow>
          if io_stage z < ZIO_STAGE_DONE then
            (case zio_next_stage (io_pipeline z) (io_stage z) of
               None \<Rightarrow> None
             | Some stage \<Rightarrow>
                 if stage AND blocking_stages ee \<noteq> 0 \<and> io_vd z = None \<and> on_interrupt_taskq ee
                 then Some (log_event w (Issue_dispatched i))
                 else
                   (case table (highbit64 stage - 1) of
                      None \<Rightarrow> Some (w\<lparr> fault := True \<rparr>)
                    | Some handler \<Rightarrow>
                        (case handler
                                (log_event (w\<lparr> zios := (zios w)(i \<mapsto> z\<lparr> io_stage := stage \<rparr>) \<rparr>)
                                   (Stage_entered i stage)) i of
                           None \<Rightarrow> None
                         | Some (rv, w') \<Rightarrow>
                             if rv then Some w' else zio_execute_loop ee table w' i)))
          else Some w)"

declare zio_execute_loop.simps [code]

definition zio_execute ::
  "exec_env \<Rightarrow> (nat \<Rightarrow> zio_pipe_stage option) \<Rightarrow> executor" where
  "zio_execute ee table w i =
     zio_execute_loop ee table (upd_zio w i (\<lambda>z. z\<lparr> io_executor := True \<rparr>)) i"

text \<open>
  \<open>zio_execute\<close> with the table of \<open>zio.c\<close>, whose handlers call
  \<open>zio_execute\<close> again.  The recursion is cut at a depth \<open>d\<close> of calls within
  calls: a call nested deeper has no result.
\<close>

primrec zio_run ::
  "nat \<Rightarrow> exec_env \<Rightarrow> errnos \<Rightarrow> done_env \<Rightarrow> (blkptr \<Rightarrow> bool) \<Rightarrow> ddt_env \<Rightarrow>
   (nat \<Rightarrow> zio_pipe_stage) \<Rightarrow> executor" where
  "zio_run 0 ee en env gang dd other = (\<lambda>w i. None)"
| "zio_run (Suc d) ee en env gang dd other =
     zio_execute ee (zio_pipeline en env gang dd other (zio_run d ee en env gang dd other))"

text \<open>The stages whose handlers a log shows entered for a request, in order.\<close>

fun entered :: "nat \<Rightarrow> event list \<Rightarrow> 32 word list" where
  "entered i [] = []"
| "entered i (Stage_entered j s # es) = (if j = i then s # entered i es else entered i es)"
| "entered i (e # es) = entered i es"

text \<open>
  Properties of a handler table, for a request \<open>i\<close> and a condition \<open>ok\<close> on
  the request.  \<open>returns\<close>: every handler returns.  \<open>keeps_stage\<close>: a
  handler that returns \<open>ZIO_PIPELINE_CONTINUE\<close> leaves the request in place,
  with the condition, at the stage it was entered with, and with the done stage
  in its pipeline if it was there.  \<open>not_reentrant\<close>: no handler runs the
  pipeline of the request it is called for.  \<open>stage_blind\<close>: the condition
  does not look at the stage or the executor of the request.
\<close>

definition returns :: "(zio \<Rightarrow> bool) \<Rightarrow> (nat \<Rightarrow> zio_pipe_stage option) \<Rightarrow> nat \<Rightarrow> bool" where
  "returns ok table i \<longleftrightarrow>
     (\<forall>n h w z. table n = Some h \<longrightarrow> zios w i = Some z \<longrightarrow> ok z \<longrightarrow> h w i \<noteq> None)"

definition keeps_stage :: "(zio \<Rightarrow> bool) \<Rightarrow> (nat \<Rightarrow> zio_pipe_stage option) \<Rightarrow> nat \<Rightarrow> bool" where
  "keeps_stage ok table i \<longleftrightarrow>
     (\<forall>n h w z w'. table n = Some h \<longrightarrow> zios w i = Some z \<longrightarrow> ok z \<longrightarrow>
        h w i = Some (False, w') \<longrightarrow>
        (\<exists>z'. zios w' i = Some z' \<and> ok z' \<and> io_stage z' = io_stage z \<and>
              (io_pipeline z AND ZIO_STAGE_DONE \<noteq> 0 \<longrightarrow>
               io_pipeline z' AND ZIO_STAGE_DONE \<noteq> 0)))"

definition not_reentrant :: "(zio \<Rightarrow> bool) \<Rightarrow> (nat \<Rightarrow> zio_pipe_stage option) \<Rightarrow> nat \<Rightarrow> bool" where
  "not_reentrant ok table i \<longleftrightarrow>
     (\<forall>n h w z rv w'. table n = Some h \<longrightarrow> zios w i = Some z \<longrightarrow> ok z \<longrightarrow>
        h w i = Some (rv, w') \<longrightarrow> entered i (trace w') = entered i (trace w))"

definition stage_blind :: "(zio \<Rightarrow> bool) \<Rightarrow> bool" where
  "stage_blind ok \<longleftrightarrow>
     (\<forall>z s. ok z \<longrightarrow> ok (z\<lparr> io_stage := s \<rparr>) \<and> ok (z\<lparr> io_executor := True \<rparr>))"

definition no_parents :: "zio \<Rightarrow> bool" where
  "no_parents z \<longleftrightarrow> io_parent_list z = []"

text \<open>
  Concrete surroundings for the execution loop: no thread of an interrupt task
  queue, a handler that raises the fault flag in place of every handler that is
  not modelled, no gang block pointers, and a dedup table that never makes
  \<open>zio_ddt_write\<close> restart (\<open>plain_ddt\<close>) or that wants more ditto copies
  (\<open>ditto_ddt\<close>).  \<open>plain_run d\<close> and \<open>ditto_run d\<close> are \<open>zio_execute\<close>
  in these surroundings, and \<open>plain_table d\<close> is the table whose handlers call
  \<open>plain_run d\<close>.
\<close>

definition example_exec :: exec_env where
  "example_exec =
     \<lparr> blocking_stages = ZIO_STAGE_DVA_ALLOCATE OR ZIO_STAGE_DVA_CLAIM OR ZIO_STAGE_VDEV_IO_START,
       on_interrupt_taskq = False \<rparr>"

definition unmodelled :: "nat \<Rightarrow> zio_pipe_stage" where
  "unmodelled n w i = Some (True, w\<lparr> fault := True \<rparr>)"

definition no_gang :: "blkptr \<Rightarrow> bool" where
  "no_gang bp = False"

definition plain_ddt :: ddt_env where
  "plain_ddt = \<lparr> ddt_collision = False, ci_dedup = (\<lambda>c. True), spa_dedup_checksum = 0,
                 ditto_wanted = False, ddt_issue = (\<lambda>w i. Some w) \<rparr>"

definition ditto_ddt :: ddt_env where
  "ditto_ddt = plain_ddt\<lparr> ditto_wanted := True \<rparr>"

definition plain_run :: "nat \<Rightarrow> executor" where
  "plain_run d = zio_run d example_exec freebsd_errnos example_env no_gang plain_ddt unmodelled"

definition ditto_run :: "nat \<Rightarrow> executor" where
  "ditto_run d = zio_run d example_exec freebsd_errnos example_env no_gang ditto_ddt unmodelled"

definition plain_table :: "nat \<Rightarrow> nat \<Rightarrow> zio_pipe_stage option" where
  "plain_table d = zio_pipeline freebsd_errnos example_env no_gang plain_ddt unmodelled (plain_run d)"

text \<open>
  A request with the interlock pipeline (\<open>zio_null\<close>) that somebody waits for,
  before its first stage.
\<close>

definition example_null :: zio where
  "example_null = zio_zero\<lparr> io_id := 1, io_child_type := ZIO_CHILD_LOGICAL,
      io_stage := ZIO_STAGE_OPEN, io_pipeline := ZIO_INTERLOCK_PIPELINE,
      io_orig_stage := ZIO_STAGE_OPEN, io_orig_pipeline := ZIO_INTERLOCK_PIPELINE,
      io_flags := {ZIO_FLAG_CANFAIL}, io_orig_flags := {ZIO_FLAG_CANFAIL},
      io_logical := Some 1, io_waiter := True \<rparr>"

definition example_null_world :: world where
  "example_null_world = empty_world\<lparr> zios := [1 \<mapsto> example_null], next_zio := 2 \<rparr>"

text \<open>
  A dedup write with an override block pointer, as \<open>zio_write_bp_init\<close> leaves
  it when the checksum of the override fits: the stage is the one of
  \<open>zio_write_bp_init\<close>, the pipeline is the interlock pipeline with
  \<open>ZIO_STAGE_DDT_WRITE\<close> added.
\<close>

definition example_dedup_write :: zio where
  "example_dedup_write = zio_zero\<lparr> io_id := 1, io_type := ZIO_TYPE_WRITE,
      io_child_type := ZIO_CHILD_LOGICAL,
      io_stage := ZIO_STAGE_WRITE_BP_INIT,
      io_pipeline := ZIO_INTERLOCK_PIPELINE OR ZIO_STAGE_DDT_WRITE,
      io_orig_stage := ZIO_STAGE_OPEN, io_orig_pipeline := ZIO_WRITE_PIPELINE,
      io_prop := \<lparr> zp_checksum = 8, zp_copies = 1, zp_dedup = True, zp_dedup_verify = False \<rparr>,
      io_logical := Some 1,
      io_bp := Some \<lparr> blk_ident = 20, blk_birth = 7, bp_is_hole = False \<rparr>,
      io_bp_override := Some \<lparr> blk_ident = 20, blk_birth = 7, bp_is_hole = False \<rparr> \<rparr>"

definition example_dedup_world :: world where
  "example_dedup_world = empty_world\<lparr> zios := [1 \<mapsto> example_dedup_write], next_zio := 2 \<rparr>"

chapter \<open>Verified properties\<close>

section \<open>Class selection (vdev\_queue\_class\_to\_issue)\<close>

lemma find_highest:
  "find P queueable_classes = Some r \<Longrightarrow> highest_priority P r"
  unfolding highest_priority_def queueable_classes_def
  by (auto split: if_splits)

lemma find_none:
  "find P queueable_classes = None \<Longrightarrow> \<not> (\<exists>p \<in> set queueable_classes. P p)"
  by (simp add: find_None_iff)

lemma find_some_ex:
  "find P queueable_classes = Some r \<Longrightarrow> \<exists>p \<in> set queueable_classes. P p"
  by (auto simp: find_Some_iff)

lemma min_scan:
  "set ps \<subseteq> set queueable_classes \<Longrightarrow>
   issue_below_min tn vq ps = Some (find (below_min tn vq) ps)"
  by (induction ps) (auto simp: below_min_def queueable_classes_def split: option.splits)

lemma max_scan:
  "set ps \<subseteq> set queueable_classes \<Longrightarrow> vdev_queue_max_async_writes tn sp \<noteq> None \<Longrightarrow>
   issue_below_max tn sp vq ps = Some (find (below_max tn sp vq) ps)"
  by (induction ps) (auto simp: below_max_def queueable_classes_def split: option.splits)

text \<open>
  C3.  Provided the asynchronous-write limit can be computed (no division trap),
  \<open>vdev_queue_class_to_issue\<close> returns a class \<open>r\<close>: nothing
  (\<open>ZIO_PRIORITY_NUM_QUEUEABLE\<close>) when the active tree has reached
  \<open>zfs_vdev_max_active\<close>; otherwise the highest-priority class with queued
  requests whose active count is below its minimum; if there is none, the
  highest-priority class with queued requests whose active count is below its
  maximum; and nothing if there is none either.
\<close>

theorem class_to_issue_selects:
  assumes "vdev_queue_max_async_writes tn sp \<noteq> None"
  shows "\<exists>r. vdev_queue_class_to_issue tn sp vq = Some r \<and>
     (if unat (zfs_vdev_max_active tn) \<le> length (vq_active_tree vq)
        then r = ZIO_PRIORITY_NUM_QUEUEABLE
      else if (\<exists>p \<in> set queueable_classes. below_min tn vq p)
        then highest_priority (below_min tn vq) r
      else if (\<exists>p \<in> set queueable_classes. below_max tn sp vq p)
        then highest_priority (below_max tn sp vq) r
      else r = ZIO_PRIORITY_NUM_QUEUEABLE)"
proof (cases "unat (zfs_vdev_max_active tn) \<le> length (vq_active_tree vq)")
  case True
  then show ?thesis by (simp add: vdev_queue_class_to_issue_def)
next
  case False
  have smin: "issue_below_min tn vq queueable_classes
                = Some (find (below_min tn vq) queueable_classes)"
    by (rule min_scan) simp
  have smax: "issue_below_max tn sp vq queueable_classes
                = Some (find (below_max tn sp vq) queueable_classes)"
    by (rule max_scan) (simp_all add: assms)
  show ?thesis
  proof (cases "find (below_min tn vq) queueable_classes")
    case (Some r)
    with False smin find_highest[OF Some] find_some_ex[OF Some] show ?thesis
      by (simp add: vdev_queue_class_to_issue_def)
  next
    case None
    note nmin = find_none[OF None]
    show ?thesis
    proof (cases "find (below_max tn sp vq) queueable_classes")
      case (Some r)
      with False smin smax None nmin find_highest[OF Some] find_some_ex[OF Some] show ?thesis
        by (simp add: vdev_queue_class_to_issue_def)
    next
      case None2: None
      with False smin smax None nmin find_none[OF None2] show ?thesis
        by (simp add: vdev_queue_class_to_issue_def)
    qed
  qed
qed

theorem class_to_issue_selects_witness:
  "vdev_queue_max_async_writes example_tunables example_spa \<noteq> None \<and>
   vdev_queue_class_to_issue example_tunables example_spa example_queue
     = Some ZIO_PRIORITY_ASYNC_READ \<and>
   \<not> (\<exists>p \<in> set queueable_classes. below_min example_tunables example_queue p) \<and>
   highest_priority (below_max example_tunables example_spa example_queue)
     ZIO_PRIORITY_ASYNC_READ"
proof -
  have h: "vdev_queue_max_async_writes example_tunables example_spa \<noteq> None"
    by (simp add: vdev_queue_max_async_writes_def example_tunables_def default_tunables_def
          example_spa_def async_write_min_bytes_def async_write_max_bytes_def)
  have e: "vdev_queue_class_to_issue example_tunables example_spa example_queue
             = Some ZIO_PRIORITY_ASYNC_READ"
    by (simp add: vdev_queue_class_to_issue_def example_tunables_def default_tunables_def
          example_spa_def example_queue_def queueable_classes_def)
  have a: "\<not> unat (zfs_vdev_max_active example_tunables) \<le> length (vq_active_tree example_queue)"
    by (simp add: example_tunables_def default_tunables_def example_queue_def)
  have m: "\<not> (\<exists>p \<in> set queueable_classes. below_min example_tunables example_queue p)"
    by (simp add: below_min_def example_tunables_def default_tunables_def example_queue_def
          queueable_classes_def)
  have x: "\<exists>p \<in> set queueable_classes. below_max example_tunables example_spa example_queue p"
    by (simp add: below_max_def example_tunables_def default_tunables_def example_queue_def
          queueable_classes_def)
  from class_to_issue_selects [OF h, of example_queue] e a m x
  have "highest_priority (below_max example_tunables example_spa example_queue)
          ZIO_PRIORITY_ASYNC_READ"
    by simp
  with h e m show ?thesis by blast
qed

section \<open>The asynchronous-write throttle (vdev\_queue\_max\_async\_writes)\<close>

lemma unat_ucast_32_64: "unat (ucast (w :: 32 word) :: 64 word) = unat w"
  by (simp add: unsigned_ucast_eq take_bit_nat_eq_self unsigned_less[THEN less_trans])

lemma unat_ucast_64_32: "unat (w :: 64 word) < 2 ^ 32 \<Longrightarrow> unat (ucast w :: 32 word) = unat w"
  by (simp add: unsigned_ucast_eq take_bit_nat_eq_self)

text \<open>
  The interpolation in machine arithmetic equals the interpolation in the natural
  numbers when the bounds are ordered and the product fits in 64 bits.
\<close>

lemma interp_nat:
  fixes dirty lo hi :: "64 word" and mn mx :: "32 word"
  assumes le: "lo \<le> dirty" "dirty \<le> hi" and lt: "lo < hi" and mm: "mn \<le> mx"
    and nov: "(unat hi - unat lo) * (unat mx - unat mn) < 2 ^ 64"
  shows "unat (ucast ((dirty - lo) * ucast (mx - mn) div (hi - lo) + ucast mn :: 64 word) :: 32 word)
           = unat mn + (unat dirty - unat lo) * (unat mx - unat mn) div (unat hi - unat lo)"
proof -
  let ?a = "dirty - lo" and ?d = "ucast (mx - mn) :: 64 word" and ?r = "hi - lo"
  have ua: "unat ?a = unat dirty - unat lo" using le by (simp add: unat_sub)
  have ur: "unat ?r = unat hi - unat lo" using lt by (simp add: unat_sub)
  have ud: "unat ?d = unat mx - unat mn" using mm by (simp add: unat_ucast_32_64 unat_sub)
  have dl: "unat dirty \<le> unat hi" using le by (simp add: word_le_nat_alt)
  have ll: "unat lo < unat hi" using lt by (simp add: word_less_nat_alt)
  have al: "unat ?a \<le> unat ?r" using ua ur dl by simp
  have "unat ?a * unat ?d \<le> unat ?r * unat ?d" using al by (rule mult_le_mono1)
  also have "\<dots> < 2 ^ 64" using nov ur ud by simp
  finally have pl: "unat ?a * unat ?d < 2 ^ 64" .
  then have up: "unat (?a * ?d) = unat ?a * unat ?d"
    using unat_mult_lem[of ?a ?d] by simp
  have uq: "unat (?a * ?d div ?r) = unat ?a * unat ?d div unat ?r"
    by (simp add: unat_div up)
  have "unat ?a * unat ?d div unat ?r \<le> unat ?r * unat ?d div unat ?r"
    using al by (intro div_le_mono mult_le_mono1)
  also have "\<dots> = unat ?d" using ll ur by simp
  finally have ql: "unat (?a * ?d div ?r) \<le> unat mx - unat mn" using uq ud by simp
  have mxl: "unat mx < 2 ^ 32" using unsigned_less[of mx] by simp
  have mnl: "unat mn \<le> unat mx" using mm by (simp add: word_le_nat_alt)
  have sl: "unat (?a * ?d div ?r) + unat (ucast mn :: 64 word) < 2 ^ 32"
    using ql mxl mnl by (simp add: unat_ucast_32_64)
  then have "unat (?a * ?d div ?r) + unat (ucast mn :: 64 word) < 2 ^ 64"
    by (rule less_trans) simp
  then have us: "unat (?a * ?d div ?r + ucast mn)
                   = unat (?a * ?d div ?r) + unat (ucast mn :: 64 word)"
    using unat_add_lem[of "?a * ?d div ?r" "ucast mn :: 64 word"] by simp
  have "unat (ucast (?a * ?d div ?r + ucast mn) :: 32 word) = unat (?a * ?d div ?r + ucast mn)"
    by (rule unat_ucast_64_32) (use us sl in simp)
  then show ?thesis using us uq ua ud ur by (simp add: unat_ucast_32_64 add.commute)
qed

text \<open>
  C6, as the code has it.  When no sync task is pending, the two activity bounds are
  ordered, the low threshold lies strictly below the high one and the interpolation
  product fits in 64 bits, \<open>vdev_queue_max_async_writes\<close> returns the configured
  minimum for dirty data below the low threshold, the configured maximum for dirty
  data above the high threshold, and otherwise
  \<open>min + (dirty - min_bytes) * (max - min) div (max_bytes - min_bytes)\<close>.
\<close>

theorem max_async_writes_interpolates:
  assumes "\<not> spa_has_pending_synctask sp"
    and "zfs_vdev_async_write_min_active tn \<le> zfs_vdev_async_write_max_active tn"
    and "async_write_min_bytes tn < async_write_max_bytes tn"
    and "(unat (async_write_max_bytes tn) - unat (async_write_min_bytes tn)) *
         (unat (zfs_vdev_async_write_max_active tn) - unat (zfs_vdev_async_write_min_active tn))
           < 2 ^ 64"
  shows "\<exists>r. vdev_queue_max_async_writes tn sp = Some r \<and>
     (if dp_dirty_total sp < async_write_min_bytes tn
        then r = zfs_vdev_async_write_min_active tn
      else if dp_dirty_total sp > async_write_max_bytes tn
        then r = zfs_vdev_async_write_max_active tn
      else unat r = unat (zfs_vdev_async_write_min_active tn) +
             (unat (dp_dirty_total sp) - unat (async_write_min_bytes tn)) *
             (unat (zfs_vdev_async_write_max_active tn) - unat (zfs_vdev_async_write_min_active tn))
             div (unat (async_write_max_bytes tn) - unat (async_write_min_bytes tn)))"
proof -
  consider (low) "dp_dirty_total sp < async_write_min_bytes tn"
    | (high) "\<not> dp_dirty_total sp < async_write_min_bytes tn"
             "dp_dirty_total sp > async_write_max_bytes tn"
    | (mid) "async_write_min_bytes tn \<le> dp_dirty_total sp"
            "dp_dirty_total sp \<le> async_write_max_bytes tn"
    by fastforce
  then show ?thesis
  proof cases
    case low
    with assms(1) show ?thesis by (simp add: vdev_queue_max_async_writes_def Let_def)
  next
    case high
    with assms(1) show ?thesis by (simp add: vdev_queue_max_async_writes_def Let_def)
  next
    case mid
    have ne: "async_write_max_bytes tn - async_write_min_bytes tn \<noteq> 0"
      using assms(3) by simp
    from mid have c: "\<not> dp_dirty_total sp < async_write_min_bytes tn"
      "\<not> dp_dirty_total sp > async_write_max_bytes tn" by auto
    show ?thesis
      using assms(1) c ne interp_nat[OF mid assms(3) assms(2) assms(4)]
      by (simp add: vdev_queue_max_async_writes_def Let_def)
  qed
qed

theorem max_async_writes_interpolates_witness:
  "\<not> spa_has_pending_synctask half_dirty_spa \<and>
   async_write_min_bytes example_tunables = 1288490188 \<and>
   async_write_max_bytes example_tunables = 2576980377 \<and>
   vdev_queue_max_async_writes example_tunables half_dirty_spa = Some 5 \<and>
   unat (5 :: 32 word) = 1 + (1932735283 - 1288490188) * (10 - 1) div (2576980377 - 1288490188)"
proof -
  have lo: "async_write_min_bytes example_tunables = 1288490188"
    by (simp add: async_write_min_bytes_def example_tunables_def default_tunables_def)
  have hi: "async_write_max_bytes example_tunables = 2576980377"
    by (simp add: async_write_max_bytes_def example_tunables_def default_tunables_def)
  have mi: "zfs_vdev_async_write_min_active example_tunables = 1"
    by (simp add: example_tunables_def default_tunables_def)
  have ma: "zfs_vdev_async_write_max_active example_tunables = 10"
    by (simp add: example_tunables_def default_tunables_def)
  have di: "dp_dirty_total half_dirty_spa = 1932735283" by (simp add: half_dirty_spa_def)
  have h1: "\<not> spa_has_pending_synctask half_dirty_spa" by (simp add: half_dirty_spa_def)
  have h2: "zfs_vdev_async_write_min_active example_tunables
              \<le> zfs_vdev_async_write_max_active example_tunables"
    by (simp add: mi ma)
  have h3: "async_write_min_bytes example_tunables < async_write_max_bytes example_tunables"
    by (simp add: lo hi)
  have h4: "(unat (async_write_max_bytes example_tunables)
              - unat (async_write_min_bytes example_tunables)) *
            (unat (zfs_vdev_async_write_max_active example_tunables)
              - unat (zfs_vdev_async_write_min_active example_tunables)) < 2 ^ 64"
    by (simp add: lo hi mi ma)
  have v: "vdev_queue_max_async_writes example_tunables half_dirty_spa = Some 5"
    using h1 by (simp add: vdev_queue_max_async_writes_def Let_def lo hi mi ma di)
  from max_async_writes_interpolates [OF h1 h2 h3 h4] v
  have "unat (5 :: 32 word) = 1 + (1932735283 - 1288490188) * (10 - 1) div (2576980377 - 1288490188)"
    by (simp add: lo hi mi ma di)
  with h1 lo hi v show ?thesis by simp
qed

text \<open>
  The claim as stated fails when a sync task is pending: with no dirty data at all,
  below the low threshold, the bound is the configured maximum (10), not the
  minimum (1).
\<close>

theorem max_async_writes_synctask_counterexample:
  "dp_dirty_total synctask_spa < async_write_min_bytes example_tunables \<and>
   zfs_vdev_async_write_min_active example_tunables = 1 \<and>
   vdev_queue_max_async_writes example_tunables synctask_spa = Some 10"
  by (simp add: vdev_queue_max_async_writes_def Let_def synctask_spa_def
        async_write_min_bytes_def async_write_max_bytes_def
        example_tunables_def default_tunables_def)

section \<open>The device-wide bound on active requests\<close>

lemma avl_add_length [simp]: "length (avl_add cmp z t) = Suc (length t)"
  by (induction t) auto

lemma pending_add_active:
  "vdev_queue_pending_add vq z = Some vq' \<Longrightarrow>
   vq_active_tree vq' = avl_add vdev_queue_offset_compare z (vq_active_tree vq)"
  by (auto simp: vdev_queue_pending_add_def split: if_splits)

lemma io_add_active:
  "vdev_queue_io_add vq z = Some vq' \<Longrightarrow> vq_active_tree vq' = vq_active_tree vq"
  by (auto simp: vdev_queue_io_add_def split: if_splits)

lemma pending_remove_active:
  "vdev_queue_pending_remove vq z = Some vq' \<Longrightarrow>
   Suc (length (vq_active_tree vq')) = length (vq_active_tree vq)"
  by (auto simp: vdev_queue_pending_remove_def split: if_splits option.splits
           dest: avl_remove_length)

lemma class_to_issue_below_aggregate:
  "vdev_queue_class_to_issue tn sp vq = Some p \<Longrightarrow> p \<noteq> ZIO_PRIORITY_NUM_QUEUEABLE \<Longrightarrow>
   length (vq_active_tree vq) < unat (zfs_vdev_max_active tn)"
  by (auto simp: vdev_queue_class_to_issue_def split: if_splits)

lemma to_issue_take_active:
  "to_issue_take tn agg fresh vq p k = Some (vq2, z) \<Longrightarrow> vq_active_tree vq2 = vq_active_tree vq"
proof -
  assume a: "to_issue_take tn agg fresh vq p k = Some (vq2, z)"
  then obtain vq1 r where ag: "vdev_queue_aggregate tn agg fresh vq p k = Some (vq1, r)"
    by (cases "vdev_queue_aggregate tn agg fresh vq p k") (auto simp: to_issue_take_def)
  from a ag have "vq2 = vq1 \<or> (\<exists>y. vdev_queue_io_remove vq1 y = Some vq2)"
    by (auto simp: to_issue_take_def split: option.splits prod.splits)
  with aggregate_active[OF ag] show ?thesis by (auto dest: io_remove_active)
qed

text \<open>
  What one pass does to the active tree: a request enters it only when the class
  selection has found the tree below \<open>zfs_vdev_max_active\<close>, and then it is the
  only one to enter.
\<close>

lemma to_issue_step_active:
  assumes "vdev_queue_io_to_issue_step tn agg sp search fresh vq = Some st"
  shows "case st of
           Again vq' \<Rightarrow> vq_active_tree vq' = vq_active_tree vq
         | Issued vq' None \<Rightarrow> vq' = vq
         | Issued vq' (Some z) \<Rightarrow>
             length (vq_active_tree vq) < unat (zfs_vdev_max_active tn) \<and>
             vq_active_tree vq' = avl_add vdev_queue_offset_compare z (vq_active_tree vq)"
  using to_issue_step_cases[OF assms]
proof
  assume "vdev_queue_class_to_issue tn sp vq = Some ZIO_PRIORITY_NUM_QUEUEABLE \<and>
          st = Issued vq None"
  then show ?thesis by simp
next
  assume "\<exists>p k vq2 z. vdev_queue_class_to_issue tn sp vq = Some p \<and>
            p \<in> set queueable_classes \<and>
            to_issue_choose p search vq = Some k \<and>
            to_issue_take tn agg fresh vq p k = Some (vq2, z) \<and>
            to_issue_finish vq2 z = Some st"
  then obtain p k vq2 z where p: "vdev_queue_class_to_issue tn sp vq = Some p"
    and pq: "p \<in> set queueable_classes"
    and t: "to_issue_take tn agg fresh vq p k = Some (vq2, z)"
    and f: "to_issue_finish vq2 z = Some st" by blast
  from pq have "p \<noteq> ZIO_PRIORITY_NUM_QUEUEABLE" by (auto simp: queueable_classes_def)
  note bl = class_to_issue_below_aggregate[OF p this]
  note a2 = to_issue_take_active[OF t]
  from f a2 bl show ?thesis
    by (auto simp: to_issue_finish_def split: if_splits option.splits dest: pending_add_active)
qed

lemma to_issue_step_bounded:
  assumes "vdev_queue_io_to_issue_step tn agg sp search fresh vq = Some st" "active_bounded tn vq"
  shows "case st of Again vq' \<Rightarrow> active_bounded tn vq' | Issued vq' r \<Rightarrow> active_bounded tn vq'"
  using to_issue_step_active[OF assms(1)] assms(2)
  by (auto simp: active_bounded_def split: issue_step.splits option.splits)

lemma to_issue_bounded_aux:
  "vdev_queue_io_to_issue tn agg sp search fresh vq = Some (vq', r, f') \<longrightarrow>
   active_bounded tn vq \<longrightarrow> active_bounded tn vq'"
proof (induction tn agg sp search fresh vq rule: vdev_queue_io_to_issue.induct)
  case (1 tn agg sp search fresh vq)
  show ?case
  proof (cases "vdev_queue_io_to_issue_step tn agg sp search fresh vq")
    case None
    then show ?thesis by (simp add: vdev_queue_io_to_issue.simps[of tn agg sp search fresh vq])
  next
    case (Some st)
    show ?thesis
    proof (cases st)
      case (Again vq1)
      with Some "1.IH"[of st vq1] to_issue_step_bounded[OF Some]
      show ?thesis
        by (auto simp: vdev_queue_io_to_issue.simps[of tn agg sp search fresh vq])
    next
      case (Issued vq1 r1)
      with Some to_issue_step_bounded[OF Some]
      show ?thesis
        by (auto simp: vdev_queue_io_to_issue.simps[of tn agg sp search fresh vq])
    qed
  qed
qed

lemma to_issue_bounded:
  "vdev_queue_io_to_issue tn agg sp search fresh vq = Some (vq', r, f') \<Longrightarrow>
   active_bounded tn vq \<Longrightarrow> active_bounded tn vq'"
  using to_issue_bounded_aux by blast

lemma io_done_loop_bounded_aux:
  "vdev_queue_io_done_loop tn agg sp search fresh vq = Some (vq', f') \<longrightarrow>
   active_bounded tn vq \<longrightarrow> active_bounded tn vq'"
proof (induction tn agg sp search fresh vq rule: vdev_queue_io_done_loop.induct)
  case (1 tn agg sp search fresh vq)
  show ?case
  proof (cases "vdev_queue_io_to_issue tn agg sp search fresh vq")
    case None
    then show ?thesis by (simp add: vdev_queue_io_done_loop.simps[of tn agg sp search fresh vq])
  next
    case (Some x)
    obtain vq1 r f1 where x: "x = (vq1, r, f1)" by (cases x) auto
    show ?thesis
    proof (cases r)
      case None
      with Some x to_issue_bounded[of tn agg sp search fresh vq vq1 r f1] show ?thesis
        by (auto simp: vdev_queue_io_done_loop.simps[of tn agg sp search fresh vq])
    next
      case Some1: (Some nio)
      with Some x to_issue_bounded[of tn agg sp search fresh vq vq1 r f1]
        "1.IH"[of x vq1 "(r, f1)" r f1 nio]
      show ?thesis
        by (auto simp: vdev_queue_io_done_loop.simps[of tn agg sp search fresh vq])
    qed
  qed
qed

lemma vdev_queue_io_bounded:
  assumes "vdev_queue_io tn agg sp search fresh now vq zio = Some (vq', r, f')" "active_bounded tn vq"
  shows "active_bounded tn vq'"
proof (cases "ZIO_FLAG_DONT_QUEUE \<in> io_flags zio")
  case True
  with assms show ?thesis by (simp add: vdev_queue_io_def)
next
  case False
  with assms(1) obtain vq1 r1 where
    a: "vdev_queue_io_add vq (vdev_queue_io_prepare zio now) = Some vq1"
    and t: "vdev_queue_io_to_issue tn agg sp search fresh vq1 = Some (vq', r1, f')"
    by (auto simp: vdev_queue_io_def split: option.splits if_splits)
  from io_add_active[OF a] assms(2) have "active_bounded tn vq1" by (simp add: active_bounded_def)
  with to_issue_bounded[OF t] show ?thesis .
qed

lemma vdev_queue_io_done_bounded:
  assumes "vdev_queue_io_done tn agg sp search fresh vq zio = Some (vq', f')" "active_bounded tn vq"
  shows "active_bounded tn vq'"
proof -
  from assms(1) obtain vq1 where
    a: "vdev_queue_pending_remove vq zio = Some vq1"
    and t: "vdev_queue_io_done_loop tn agg sp search fresh vq1 = Some (vq', f')"
    by (auto simp: vdev_queue_io_done_def split: option.splits)
  from pending_remove_active[OF a] assms(2) have "active_bounded tn vq1"
    by (simp add: active_bounded_def)
  with io_done_loop_bounded_aux t show ?thesis by blast
qed

lemma vq_run_bounded:
  "vq_run tn agg search evs (vq, fresh) = Some (vq', fresh') \<Longrightarrow> active_bounded tn vq \<Longrightarrow>
   active_bounded tn vq'"
proof (induction evs arbitrary: vq fresh)
  case Nil
  then show ?case by simp
next
  case (Cons e evs)
  show ?case
  proof (cases e)
    case (Enqueue zio now sp)
    with Cons.prems(1) obtain vq1 r f1 where
      s: "vdev_queue_io tn agg sp search fresh now vq zio = Some (vq1, r, f1)"
      and r: "vq_run tn agg search evs (vq1, f1) = Some (vq', fresh')"
      by (auto split: option.splits)
    from Cons.IH[OF r vdev_queue_io_bounded[OF s Cons.prems(2)]] show ?thesis .
  next
    case (Complete zio sp)
    with Cons.prems(1) obtain vq1 f1 where
      s: "vdev_queue_io_done tn agg sp search fresh vq zio = Some (vq1, f1)"
      and r: "vq_run tn agg search evs (vq1, f1) = Some (vq', fresh')"
      by (auto split: option.splits)
    from Cons.IH[OF r vdev_queue_io_done_bounded[OF s Cons.prems(2)]] show ?thesis .
  qed
qed

text \<open>
  C2.  After any history of \<open>vdev_queue_io\<close> and \<open>vdev_queue_io_done\<close> events on
  a freshly initialised queue, the active tree holds at most
  \<open>zfs_vdev_max_active\<close> requests.  (By \<open>to_issue_step_active\<close> a request
  enters the tree only in a pass whose class selection found fewer than
  \<open>zfs_vdev_max_active\<close> active.)
\<close>

theorem active_never_exceeds_max:
  assumes "vq_run tn agg search evs (vdev_queue_init, fresh) = Some (vq, fresh')"
  shows "length (vq_active_tree vq) \<le> unat (zfs_vdev_max_active tn)"
proof -
  have "active_bounded tn vdev_queue_init" by (simp add: active_bounded_def vdev_queue_init_def)
  from vq_run_bounded[OF assms this] show ?thesis by (simp add: active_bounded_def)
qed


lemma run_eval:
  "(case vq_run one_at_a_time agg_inherit_example 1000 example_history (vdev_queue_init, 2000) of
      None \<Rightarrow> False
    | Some (vq, f) \<Rightarrow> map io_id (vq_active_tree vq) = [2])"
  by code_simp

theorem active_never_exceeds_max_witness:
  "\<exists>vq f. vq_run one_at_a_time agg_inherit_example 1000 example_history (vdev_queue_init, 2000)
            = Some (vq, f) \<and>
          map io_id (vq_active_tree vq) = [2] \<and>
          length (vq_active_tree vq) \<le> unat (zfs_vdev_max_active one_at_a_time)"
proof -
  from run_eval obtain vq f where
    r: "vq_run one_at_a_time agg_inherit_example 1000 example_history (vdev_queue_init, 2000)
          = Some (vq, f)"
    and a: "map io_id (vq_active_tree vq) = [2]"
    by (auto split: option.splits)
  from active_never_exceeds_max[OF r]
  have b: "length (vq_active_tree vq) \<le> unat (zfs_vdev_max_active one_at_a_time)" .
  show ?thesis using r a b by (intro exI[of _ vq] exI[of _ f]) simp
qed

section \<open>Priority normalisation on entry (vdev\_queue\_io)\<close>

text \<open>
  C10.  The request \<open>vdev_queue_io\<close> inserts has a queueable priority: a read
  keeps a priority of sync read, async read or scrub and otherwise becomes an
  async read; a write keeps sync write or async write and otherwise becomes an
  async write; a free becomes a trim.  So \<open>vdev_queue_io_add\<close> finds its
  precondition \<open>io_priority < ZIO_PRIORITY_NUM_QUEUEABLE\<close> satisfied and inserts
  the request, and a request without the don't-queue flag goes on from there.
\<close>

theorem vdev_queue_io_normalizes:
  "(io_type zio = ZIO_TYPE_READ \<longrightarrow>
      io_priority (vdev_queue_io_prepare zio now) =
        (if io_priority zio \<in> {ZIO_PRIORITY_SYNC_READ, ZIO_PRIORITY_ASYNC_READ, ZIO_PRIORITY_SCRUB}
         then io_priority zio else ZIO_PRIORITY_ASYNC_READ)) \<and>
   (io_type zio = ZIO_TYPE_WRITE \<longrightarrow>
      io_priority (vdev_queue_io_prepare zio now) =
        (if io_priority zio \<in> {ZIO_PRIORITY_SYNC_WRITE, ZIO_PRIORITY_ASYNC_WRITE}
         then io_priority zio else ZIO_PRIORITY_ASYNC_WRITE)) \<and>
   (io_type zio = ZIO_TYPE_FREE \<longrightarrow>
      io_priority (vdev_queue_io_prepare zio now) = ZIO_PRIORITY_TRIM) \<and>
   priority_index (io_priority (vdev_queue_io_prepare zio now))
     < priority_index ZIO_PRIORITY_NUM_QUEUEABLE \<and>
   (\<exists>vq1. vdev_queue_io_add vq (vdev_queue_io_prepare zio now) = Some vq1 \<and>
      (ZIO_FLAG_DONT_QUEUE \<notin> io_flags zio \<longrightarrow>
         vdev_queue_io tn agg sp search fresh now vq zio =
           (case vdev_queue_io_to_issue tn agg sp search fresh vq1 of
              None \<Rightarrow> None
            | Some (vq2, None, fresh') \<Rightarrow> Some (vq2, None, fresh')
            | Some (vq2, Some nio, fresh') \<Rightarrow>
                if io_done nio = Some VDEV_QUEUE_AGG_IO_DONE then Some (vq2, None, fresh')
                else Some (vq2, Some nio, fresh'))))"
proof -
  have q: "priority_index (io_priority (vdev_queue_io_prepare zio now))
             < priority_index ZIO_PRIORITY_NUM_QUEUEABLE"
    by (cases "io_priority zio")
       (auto simp: vdev_queue_io_prepare_def vdev_queue_io_fixup_def Let_def)
  then have a: "vdev_queue_io_add vq (vdev_queue_io_prepare zio now) \<noteq> None"
    by (simp add: vdev_queue_io_add_def queueable_def)
  have r: "io_type zio = ZIO_TYPE_READ \<longrightarrow>
      io_priority (vdev_queue_io_prepare zio now) =
        (if io_priority zio \<in> {ZIO_PRIORITY_SYNC_READ, ZIO_PRIORITY_ASYNC_READ, ZIO_PRIORITY_SCRUB}
         then io_priority zio else ZIO_PRIORITY_ASYNC_READ)"
    by (auto simp: vdev_queue_io_prepare_def vdev_queue_io_fixup_def Let_def)
  have w: "io_type zio = ZIO_TYPE_WRITE \<longrightarrow>
      io_priority (vdev_queue_io_prepare zio now) =
        (if io_priority zio \<in> {ZIO_PRIORITY_SYNC_WRITE, ZIO_PRIORITY_ASYNC_WRITE}
         then io_priority zio else ZIO_PRIORITY_ASYNC_WRITE)"
    by (auto simp: vdev_queue_io_prepare_def vdev_queue_io_fixup_def Let_def)
  have f: "io_type zio = ZIO_TYPE_FREE \<longrightarrow>
      io_priority (vdev_queue_io_prepare zio now) = ZIO_PRIORITY_TRIM"
    by (auto simp: vdev_queue_io_prepare_def vdev_queue_io_fixup_def Let_def)
  from a obtain vq1 where v: "vdev_queue_io_add vq (vdev_queue_io_prepare zio now) = Some vq1"
    by auto
  have i: "ZIO_FLAG_DONT_QUEUE \<notin> io_flags zio \<longrightarrow>
      vdev_queue_io tn agg sp search fresh now vq zio =
        (case vdev_queue_io_to_issue tn agg sp search fresh vq1 of
           None \<Rightarrow> None
         | Some (vq2, None, fresh') \<Rightarrow> Some (vq2, None, fresh')
         | Some (vq2, Some nio, fresh') \<Rightarrow>
             if io_done nio = Some VDEV_QUEUE_AGG_IO_DONE then Some (vq2, None, fresh')
             else Some (vq2, Some nio, fresh'))"
    by (simp add: vdev_queue_io_def v)
  from r w f q v i show ?thesis by blast
qed

theorem vdev_queue_io_normalizes_witness:
  "io_type (read_req 1 0) = ZIO_TYPE_READ \<and>
   io_priority (read_req 1 0) = ZIO_PRIORITY_NOW \<and>
   ZIO_FLAG_DONT_QUEUE \<notin> io_flags (read_req 1 0) \<and>
   io_priority (vdev_queue_io_prepare (read_req 1 0) 100) = ZIO_PRIORITY_ASYNC_READ \<and>
   vdev_queue_io_add vdev_queue_init (vdev_queue_io_prepare (read_req 1 0) 100) \<noteq> None"
proof -
  have t: "io_type (read_req 1 0) = ZIO_TYPE_READ"
    and p: "io_priority (read_req 1 0) = ZIO_PRIORITY_NOW"
    and fl: "ZIO_FLAG_DONT_QUEUE \<notin> io_flags (read_req 1 0)"
    by (simp_all add: read_req_def zio_zero_def)
  from vdev_queue_io_normalizes [where zio = "read_req 1 0" and now = 100
         and vq = vdev_queue_init and tn = example_tunables and agg = agg_inherit_example
         and sp = example_spa and search = 1000 and fresh = 2000] t p fl
  show ?thesis by auto
qed

section \<open>Stages as bits\<close>

lemma stage_nonzero: "k < 32 \<Longrightarrow> push_bit k (1::32 word) \<noteq> 0"
proof
  assume k: "k < 32" and z: "push_bit k (1::32 word) = 0"
  have "bit (push_bit k (1::32 word)) k" using k by (simp add: bit_simps)
  then have "bit (0::32 word) k" unfolding z .
  then show False by simp
qed

lemma stage_bit: "k < 32 \<Longrightarrow> (push_bit k (1::32 word) AND p \<noteq> 0) = bit p k"
proof -
  assume k: "k < 32"
  have "push_bit k (1::32 word) AND p = (if bit p k then push_bit k 1 else 0)"
    by (rule bit_eqI) (auto simp: bit_simps)
  then show ?thesis using stage_nonzero[OF k] by simp
qed

lemma stage_shift: "push_bit 1 (push_bit k (1::32 word)) = push_bit (Suc k) 1"
  by (simp add: push_bit_eq_mult)

lemma unat_stage: "k < 32 \<Longrightarrow> unat (push_bit k (1::32 word)) = 2 ^ k"
  by (simp add: uint_2p unat_eq_nat_uint word_gt_0)

lemma stage_mono: "j < k \<Longrightarrow> k < 32 \<Longrightarrow> push_bit j (1::32 word) < push_bit k 1"
  using unat_stage[of j] unat_stage[of k] by (simp add: word_less_nat_alt)

lemma stage_le_done: "j \<le> 21 \<Longrightarrow> push_bit j (1::32 word) \<le> ZIO_STAGE_DONE"
  using stage_mono[of j 21] by (cases "j = 21") (auto simp: ZIO_STAGE_DONE_def)

lemma stage_less_done: "j \<le> 21 \<Longrightarrow> (push_bit j (1::32 word) < ZIO_STAGE_DONE) = (j < 21)"
  using stage_mono[of j 21] by (cases "j = 21") (auto simp: ZIO_STAGE_DONE_def)

lemma done_bit: "(p AND ZIO_STAGE_DONE \<noteq> 0) = bit p 21"
  using stage_bit[of 21 p] by (simp add: ZIO_STAGE_DONE_def and.commute)

lemma next_stage_step:
  "zio_next_stage p (push_bit k 1) =
     (if bit p (Suc k) \<or> 31 \<le> k \<and> push_bit (Suc k) (1::32 word) AND p \<noteq> 0
      then Some (push_bit (Suc k) 1)
      else zio_next_stage p (push_bit (Suc k) 1))"
proof -
  have a: "zio_next_stage p (push_bit k 1) =
     (if push_bit (Suc k) 1 AND p \<noteq> 0 then Some (push_bit (Suc k) 1)
      else zio_next_stage p (push_bit (Suc k) 1))"
    by (subst zio_next_stage.simps) (simp only: Let_def stage_shift)
  show ?thesis
  proof (cases "Suc k < 32")
    case True
    show ?thesis unfolding a stage_bit[OF True] using True by auto
  next
    case False
    have "\<not> bit p (Suc k)" using False by (auto dest: bit_imp_le_length)
    then show ?thesis unfolding a using False by auto
  qed
qed

lemma next_stage_exists:
  "bit p 21 \<Longrightarrow> k < 21 \<Longrightarrow>
   \<exists>j. k < j \<and> j \<le> 21 \<and> zio_next_stage p (push_bit k 1) = Some (push_bit j 1)"
proof (induction "20 - k" arbitrary: k)
  case 0
  then have k: "k = 20" by simp
  have "zio_next_stage p (push_bit 20 1) = Some (push_bit (Suc 20) 1)"
    unfolding next_stage_step[of p 20] using 0(2) by simp
  then show ?case unfolding k by (intro exI[of _ 21]) simp
next
  case (Suc n)
  show ?case
  proof (cases "bit p (Suc k)")
    case True
    have "zio_next_stage p (push_bit k 1) = Some (push_bit (Suc k) 1)"
      unfolding next_stage_step[of p k] using True by (simp only: simp_thms if_True)
    then show ?thesis using Suc(4) by (intro exI[of _ "Suc k"] conjI) simp_all
  next
    case False
    have "Suc k \<noteq> 21" using False Suc(3) by auto
    then have *: "n = 20 - Suc k" "Suc k < 21" using Suc(2) Suc(4) by simp_all
    from Suc(1)[OF *(1) Suc(3) *(2)]
    obtain j where j: "Suc k < j" "j \<le> 21" "zio_next_stage p (push_bit (Suc k) 1) = Some (push_bit j 1)"
      by blast
    have k31: "\<not> 31 \<le> k" using Suc(4) by simp
    have "zio_next_stage p (push_bit k 1) = Some (push_bit j 1)"
      unfolding next_stage_step[of p k] using False k31 j(3) by (simp only: simp_thms if_False)
    then show ?thesis using j(1) j(2) by (intro exI[of _ j] conjI) simp_all
  qed
qed

lemma vdev_stages_done: "(p AND NOT ZIO_VDEV_IO_STAGES) AND ZIO_STAGE_DONE = p AND ZIO_STAGE_DONE"
proof -
  have "NOT ZIO_VDEV_IO_STAGES AND ZIO_STAGE_DONE = ZIO_STAGE_DONE"
    by (simp add: ZIO_VDEV_IO_STAGES_def ZIO_STAGE_DONE_def ZIO_STAGE_VDEV_IO_START_def
          ZIO_STAGE_VDEV_IO_DONE_def ZIO_STAGE_VDEV_IO_ASSESS_def)
  then show ?thesis by (simp add: and.assoc)
qed

lemma interlock_done: "ZIO_INTERLOCK_PIPELINE AND ZIO_STAGE_DONE \<noteq> 0"
  by (simp add: ZIO_INTERLOCK_PIPELINE_def ZIO_STAGE_READY_def ZIO_STAGE_DONE_def)

section \<open>What the pipeline functions add to the log\<close>

lemma adds_refl: "adds P w w"
  by (simp add: adds_def)

lemma adds_same: "trace w' = trace w \<Longrightarrow> adds P w w'"
  by (simp add: adds_def)

lemma adds_trans: "adds P w w' \<Longrightarrow> adds P w' w'' \<Longrightarrow> adds P w w''"
  by (auto simp: adds_def)

lemma adds_log: "P e \<Longrightarrow> adds P w (log_event w e)"
  by (simp add: adds_def log_event_def)

lemma adds_fault: "adds P w (w\<lparr> fault := True \<rparr>)"
  by (simp add: adds_def)

lemma trace_upd_zio [simp]: "trace (upd_zio w i f) = trace w"
  by (simp add: upd_zio_def split: option.splits)

lemma adds_add_child:
  assumes "\<And>e. \<not> is_entry e \<Longrightarrow> P e"
  shows "adds P w (zio_add_child w pio cio)"
  by (auto simp: adds_def zio_add_child_def Let_def log_event_def assms
        split: option.splits)

lemma adds_remove_child:
  assumes "\<And>e. \<not> is_entry e \<Longrightarrow> P e"
  shows "adds P w (zio_remove_child w pio cio zl)"
  by (simp add: adds_def zio_remove_child_def Let_def log_event_def assms)

lemma adds_suspend:
  assumes "\<And>e. \<not> is_entry e \<Longrightarrow> P e"
  shows "adds P w (zio_suspend env w zio)"
proof (cases "spa_failmode env = ZIO_FAILURE_MODE_PANIC")
  case True
  then show ?thesis by (simp add: zio_suspend_def adds_fault)
next
  case False
  define w1 where "w1 = log_event w Pool_suspended"
  define rw where "rw = suspend_root w1"
  define w3 where "w3 = (snd rw)\<lparr> spa_suspended := True \<rparr>"
  have a: "adds P w w1" unfolding w1_def by (rule adds_log) (simp add: assms)
  have "trace (snd rw) = trace w1"
    by (simp add: rw_def suspend_root_def zio_root_def Let_def split: option.splits)
  then have b: "adds P w1 w3" unfolding w3_def by (intro adds_same) simp
  have unf: "zio_suspend env w zio = (case zio of None \<Rightarrow> w3 | Some i \<Rightarrow> zio_add_child w3 (fst rw) i)"
    unfolding zio_suspend_def Let_def w3_def rw_def w1_def using False by simp
  have c: "adds P w3 (zio_suspend env w zio)"
    unfolding unf by (cases zio) (simp_all add: adds_refl adds_add_child[OF assms])
  from a b c show ?thesis by (blast intro: adds_trans)
qed

lemma adds_notify_parent_in:
  assumes "adding P exec" "notify_parent_in en exec w pio cio wt = Some w'"
  shows "adds P w w'"
proof (cases "zios w pio")
  case None
  then show ?thesis using assms(2) by (auto simp: notify_parent_in_def adds_def)
next
  case p: (Some p)
  show ?thesis
  proof (cases "zios w cio")
    case None
    then show ?thesis using assms(2) p by (auto simp: notify_parent_in_def adds_def)
  next
    case c: (Some c)
    obtain p' run where n: "zio_notify_parent en p c wt = (p', run)"
      by (cases "zio_notify_parent en p c wt")
    let ?w1 = "w\<lparr> zios := (zios w)(pio \<mapsto> p') \<rparr>"
    have unf: "notify_parent_in en exec w pio cio wt = (if run then exec ?w1 pio else Some ?w1)"
      by (simp add: notify_parent_in_def p c n)
    have a: "adds P w ?w1" by (rule adds_same) simp
    show ?thesis
    proof (cases run)
      case True
      then have "exec ?w1 pio = Some w'" using assms(2) unf by simp
      then have "adds P ?w1 w'" using assms(1) unfolding adding_def by blast
      with a show ?thesis by (rule adds_trans)
    next
      case False
      then show ?thesis using assms(2) unf a by simp
    qed
  qed
qed

lemma adds_notify_step:
  assumes "\<And>e. \<not> is_entry e \<Longrightarrow> P e" "adding P exec"
    "notify_parent_in en exec (zio_remove_child w pio cio zl) pio cio wt = Some w'"
  shows "adds P w w'"
  by (rule adds_trans[OF adds_remove_child[OF assms(1)] adds_notify_parent_in[OF assms(2) assms(3)]])

lemma adds_notify_all:
  assumes "\<And>e. \<not> is_entry e \<Longrightarrow> P e" "adding P exec"
  shows "done_notify_all en exec w cio ls = Some w' \<Longrightarrow> adds P w w'"
proof (induction ls arbitrary: w)
  case Nil
  then show ?case by (simp add: adds_refl)
next
  case (Cons zl ls)
  from Cons.prems obtain w1 where
    a: "notify_parent_in en exec (zio_remove_child w (zl_parent zl) cio zl)
          (zl_parent zl) cio ZIO_WAIT_DONE = Some w1"
    and b: "done_notify_all en exec w1 cio ls = Some w'"
    by (auto split: option.splits)
  from adds_notify_step[OF assms a] Cons.IH[OF b] show ?case by (rule adds_trans)
qed

lemma adds_sever:
  assumes "\<And>e. \<not> is_entry e \<Longrightarrow> P e" "adding P exec"
  shows "done_sever_godfathers en exec w cio ls = Some w' \<Longrightarrow> adds P w w'"
proof (induction ls arbitrary: w)
  case Nil
  then show ?case by (simp add: adds_refl)
next
  case (Cons zl ls)
  show ?case
  proof (cases "\<exists>p c. zios w (zl_parent zl) = Some p \<and> zios w cio = Some c")
    case False
    then have "done_sever_godfathers en exec w cio (zl # ls) = Some (w\<lparr> fault := True \<rparr>)"
      by (auto split: option.splits)
    then show ?thesis using Cons.prems by (auto simp: adds_fault)
  next
    case True
    then obtain p c where pc: "zios w (zl_parent zl) = Some p" "zios w cio = Some c" by blast
    show ?thesis
    proof (cases "ZIO_FLAG_GODFATHER \<in> io_flags p \<and> ZIO_REEXECUTE_SUSPEND \<in> io_reexecute c")
      case True
      with Cons.prems pc obtain w1 where
        a: "notify_parent_in en exec (zio_remove_child w (zl_parent zl) cio zl)
              (zl_parent zl) cio ZIO_WAIT_DONE = Some w1"
        and b: "done_sever_godfathers en exec w1 cio ls = Some w'"
        by (auto split: option.splits)
      from adds_notify_step[OF assms a] Cons.IH[OF b] show ?thesis by (rule adds_trans)
    next
      case False
      with Cons.prems pc have "done_sever_godfathers en exec w cio ls = Some w'" by auto
      then show ?thesis by (rule Cons.IH)
    qed
  qed
qed

lemma adds_tail:
  assumes "\<And>e. \<not> is_entry e \<Longrightarrow> P e" "adding P exec"
    "done_reexecute_tail en env exec w cio = Some w'"
  shows "adds P w w'"
proof (cases "zios w cio")
  case None
  then have "done_reexecute_tail en env exec w cio = Some (w\<lparr> fault := True \<rparr>)"
    by (simp add: done_reexecute_tail_def)
  with assms(3) have "w' = w\<lparr> fault := True \<rparr>" by simp
  then show ?thesis by (simp add: adds_fault)
next
  case (Some c)
  show ?thesis
  proof (cases "io_parent_list c")
    case Nil
    have unf: "done_reexecute_tail en env exec w cio =
        (if ZIO_REEXECUTE_SUSPEND \<in> io_reexecute c
         then Some (zio_suspend env w (Some cio))
         else Some (log_event w (Reexecute_dispatched cio)))"
      by (simp add: done_reexecute_tail_def Some Nil)
    show ?thesis
    proof (cases "ZIO_REEXECUTE_SUSPEND \<in> io_reexecute c")
      case True
      with assms(3) unf have "w' = zio_suspend env w (Some cio)" by simp
      then show ?thesis by (simp add: adds_suspend[OF assms(1)])
    next
      case False
      with assms(3) unf have "w' = log_event w (Reexecute_dispatched cio)" by simp
      moreover have "P (Reexecute_dispatched cio)" by (rule assms(1)) simp
      ultimately show ?thesis by (simp add: adds_log)
    qed
  next
    case (Cons zl ls)
    show ?thesis
    proof (cases ls)
      case Nil
      let ?w1 = "upd_zio w cio (\<lambda>c. c\<lparr> io_flags := io_flags c \<union> {ZIO_FLAG_DONT_PROPAGATE} \<rparr>)"
      have "done_reexecute_tail en env exec w cio =
            notify_parent_in en exec ?w1 (zl_parent zl) cio ZIO_WAIT_DONE"
        by (simp add: done_reexecute_tail_def Some Cons Nil)
      with assms(3) have "notify_parent_in en exec ?w1 (zl_parent zl) cio ZIO_WAIT_DONE = Some w'"
        by simp
      from adds_notify_parent_in[OF assms(2) this]
      have "adds P ?w1 w'" .
      moreover have "adds P w ?w1" by (rule adds_same) simp
      ultimately show ?thesis by (blast intro: adds_trans)
    next
      case (Cons a list)
      have "done_reexecute_tail en env exec w cio = Some (w\<lparr> fault := True \<rparr>)"
        by (simp add: done_reexecute_tail_def Some \<open>io_parent_list c = zl # ls\<close> Cons)
      with assms(3) have "w' = w\<lparr> fault := True \<rparr>" by simp
      then show ?thesis by (simp add: adds_fault)
    qed
  qed
qed

lemma adds_done_reexecute:
  assumes "\<And>e. \<not> is_entry e \<Longrightarrow> P e" "adding P exec"
    "zio_done_reexecute en env exec w i z = Some w'"
  shows "adds P w w'"
proof -
  let ?z7 = "z\<lparr> io_gang_leader := None, io_state := (io_state z)(ZIO_WAIT_DONE := True) \<rparr>"
  let ?w2 = "w\<lparr> zios := (zios w)(i \<mapsto> ?z7) \<rparr>"
  from assms(3) obtain w3 where
    a: "done_sever_godfathers en exec ?w2 i (io_parent_list ?z7) = Some w3"
    and b: "done_reexecute_tail en env exec w3 i = Some w'"
    by (auto simp: zio_done_reexecute_def Let_def split: option.splits)
  have "adds P w ?w2" by (rule adds_same) simp
  from this adds_sever[OF assms(1) assms(2) a] adds_tail[OF assms(1) assms(2) b]
  show ?thesis by (blast intro: adds_trans)
qed

lemma adds_done_finish:
  assumes "\<And>e. \<not> is_entry e \<Longrightarrow> P e"
  shows "adds P w (done_finish w i)"
proof (cases "zios w i")
  case None
  then show ?thesis by (simp add: done_finish_def adds_fault)
next
  case (Some c)
  have a: "P (Waiter_woken i)" "P (Destroyed i)" by (rule assms, simp)+
  show ?thesis
  proof (cases "io_waiter c")
    case True
    then have "done_finish w i =
        log_event (w\<lparr> zios := (zios w)(i \<mapsto> c\<lparr> io_executor := False \<rparr>) \<rparr>) (Waiter_woken i)"
      by (simp add: done_finish_def Some)
    then show ?thesis
      by (simp only:) (rule adds_trans[OF adds_same adds_log[where P = P and e = "Waiter_woken i", OF a(1)]], simp)
  next
    case False
    then have "done_finish w i = log_event (w\<lparr> zios := (zios w)(i := None) \<rparr>) (Destroyed i)"
      by (simp add: done_finish_def Some)
    then show ?thesis
      by (simp only:) (rule adds_trans[OF adds_same adds_log[where P = P and e = "Destroyed i", OF a(2)]], simp)
  qed
qed

lemma adds_done_callback:
  assumes "\<And>e. \<not> is_entry e \<Longrightarrow> P e"
  shows "adds P w (done_callback w i z)"
proof -
  have "P (Done_callback i)" by (rule assms) simp
  then show ?thesis by (simp add: done_callback_def adds_def log_event_def)
qed

lemma adds_done_complete:
  assumes "\<And>e. \<not> is_entry e \<Longrightarrow> P e" "adding P exec"
    "zio_done_complete en exec w i z = Some w'"
  shows "adds P w w'"
proof -
  from assms(3) obtain w4 where
    a: "done_notify_all en exec (done_callback w i z) i (io_parent_list z) = Some w4"
    and b: "w' = done_finish w4 i"
    unfolding zio_done_complete_def
    by (cases "done_notify_all en exec (done_callback w i z) i (io_parent_list z)") auto
  note A = adds_done_callback[OF assms(1), where w = w and i = i and z = z]
    and B = adds_notify_all[OF assms(1) assms(2) a]
    and C = adds_done_finish[OF assms(1), where w = w4 and i = i]
  show ?thesis unfolding b by (rule adds_trans[OF adds_trans[OF A B] C])
qed






lemma unallocate_set:
  "set (zio_dva_unallocate gn bp) = (\<lambda>b. Metaslab_free b (blk_birth b)) ` allocated_blocks gn bp"
proof (induction gn bp rule: zio_dva_unallocate.induct)
  case (1 bp)
  show ?case by (simp add: allocated_blocks_def)
next
  case (2 slots bp)
  have ih: "\<And>x. x \<in> set slots \<Longrightarrow>
      set (zio_dva_unallocate (snd x) (fst x)) =
        (\<lambda>b. Metaslab_free b (blk_birth b)) ` allocated_blocks (snd x) (fst x)"
    using "2.IH" by (simp add: prod_eq_iff)
  have a: "set (concat (map (\<lambda>(gbp, child). zio_dva_unallocate child gbp) slots)) =
        (\<Union>x \<in> set slots. set (zio_dva_unallocate (snd x) (fst x)))"
    by (simp add: case_prod_beta)
  have b: "(\<Union>x \<in> set slots. set (zio_dva_unallocate (snd x) (fst x))) =
        (\<Union>x \<in> set slots. (\<lambda>b. Metaslab_free b (blk_birth b)) ` allocated_blocks (snd x) (fst x))"
    by (rule SUP_cong[OF refl]) (simp add: ih)
  have c: "(\<Union>x \<in> set slots. (\<lambda>b. Metaslab_free b (blk_birth b)) ` allocated_blocks (snd x) (fst x)) =
        (\<lambda>b. Metaslab_free b (blk_birth b)) ` (\<Union>x \<in> set slots. allocated_blocks (snd x) (fst x))"
    by (simp add: image_UN)
  have d: "(\<Union>x \<in> set slots. allocated_blocks (snd x) (fst x)) =
           gang_tree_blocks (Some (Gang_Node slots))"
    by (simp add: allocated_blocks_def case_prod_beta)
  show ?case
    unfolding zio_dva_unallocate.simps set_append a b c d
    by (simp add: allocated_blocks_def image_Un)
qed

lemma frees_all:
  assumes "\<And>e. \<not> is_entry e \<Longrightarrow> P e"
  shows "list_all P (zio_dva_unallocate gn bp)"
  unfolding list_all_iff unallocate_set by (auto intro: assms)

lemma done_frees_all:
  assumes "\<And>e. \<not> is_entry e \<Longrightarrow> P e" "zio_done_frees z = Some frees"
  shows "list_all P frees"
  using assms(2) frees_all[OF assms(1)]
  by (auto simp: zio_done_frees_def split: if_splits option.splits)

lemma inherit_pres [simp]:
  "io_flags (zio_inherit_child_errors z ct) = io_flags z"
  "io_child_type (zio_inherit_child_errors z ct) = io_child_type z"
  "io_parent_list (zio_inherit_child_errors z ct) = io_parent_list z"
  "io_id (zio_inherit_child_errors z ct) = io_id z"
  "io_child_error (zio_inherit_child_errors z ct) = io_child_error z"
  "io_reexecute (zio_inherit_child_errors z ct) = io_reexecute z"
  "io_gang_tree (zio_inherit_child_errors z ct) = io_gang_tree z"
  "io_gang_leader (zio_inherit_child_errors z ct) = io_gang_leader z"
  "io_bp (zio_inherit_child_errors z ct) = io_bp z"
  "io_orig_pipeline (zio_inherit_child_errors z ct) = io_orig_pipeline z"
  "io_done (zio_inherit_child_errors z ct) = io_done z"
  "io_logical (zio_inherit_child_errors z ct) = io_logical z"
  by (simp_all add: zio_inherit_child_errors_def)

lemma pop_transforms_pres [simp]:
  "io_flags (zio_done_pop_transforms en env z) = io_flags z"
  "io_child_type (zio_done_pop_transforms en env z) = io_child_type z"
  "io_parent_list (zio_done_pop_transforms en env z) = io_parent_list z"
  "io_id (zio_done_pop_transforms en env z) = io_id z"
  "io_child_error (zio_done_pop_transforms en env z) = io_child_error z"
  "io_reexecute (zio_done_pop_transforms en env z) = io_reexecute z"
  "io_gang_tree (zio_done_pop_transforms en env z) = io_gang_tree z"
  "io_gang_leader (zio_done_pop_transforms en env z) = io_gang_leader z"
  "io_bp (zio_done_pop_transforms en env z) = io_bp z"
  "io_orig_pipeline (zio_done_pop_transforms en env z) = io_orig_pipeline z"
  "io_done (zio_done_pop_transforms en env z) = io_done z"
  "io_logical (zio_done_pop_transforms en env z) = io_logical z"
  by (simp_all add: zio_done_pop_transforms_def)

lemma decide_pres [simp]:
  "io_flags (zio_done_decide en env z) = io_flags z"
  "io_child_type (zio_done_decide en env z) = io_child_type z"
  "io_parent_list (zio_done_decide en env z) = io_parent_list z"
  "io_id (zio_done_decide en env z) = io_id z"
  "io_child_error (zio_done_decide en env z) = io_child_error z"
  "io_error (zio_done_decide en env z) = io_error z"
  "io_gang_tree (zio_done_decide en env z) = io_gang_tree z"
  "io_gang_leader (zio_done_decide en env z) = io_gang_leader z"
  "io_bp (zio_done_decide en env z) = io_bp z"
  "io_orig_pipeline (zio_done_decide en env z) = io_orig_pipeline z"
  "io_done (zio_done_decide en env z) = io_done z"
  "io_logical (zio_done_decide en env z) = io_logical z"
  by (simp_all add: zio_done_decide_def)

lemma done_errors_pres [simp]:
  "io_flags (zio_done_errors en env z) = io_flags z"
  "io_child_type (zio_done_errors en env z) = io_child_type z"
  "io_parent_list (zio_done_errors en env z) = io_parent_list z"
  "io_id (zio_done_errors en env z) = io_id z"
  "io_child_error (zio_done_errors en env z) = io_child_error z"
  "io_gang_tree (zio_done_errors en env z) = io_gang_tree z"
  "io_gang_leader (zio_done_errors en env z) = io_gang_leader z"
  "io_bp (zio_done_errors en env z) = io_bp z"
  "io_orig_pipeline (zio_done_errors en env z) = io_orig_pipeline z"
  "io_done (zio_done_errors en env z) = io_done z"
  "io_logical (zio_done_errors en env z) = io_logical z"
  by (simp_all add: zio_done_errors_def)

lemma inherit_three:
  "io_error z = 0 \<Longrightarrow>
   io_error (zio_inherit_child_errors
              (zio_inherit_child_errors
                 (zio_inherit_child_errors z ZIO_CHILD_VDEV) ZIO_CHILD_GANG) ZIO_CHILD_DDT) =
     (if io_child_error z ZIO_CHILD_VDEV \<noteq> 0 then io_child_error z ZIO_CHILD_VDEV
      else if io_child_error z ZIO_CHILD_GANG \<noteq> 0 then io_child_error z ZIO_CHILD_GANG
      else io_child_error z ZIO_CHILD_DDT)"
  by (simp add: zio_inherit_child_errors_def)

lemma pair_true_some: "map_option (Pair True) x = Some (rv, w') \<Longrightarrow> x = Some w' \<and> rv"
  by (cases x) auto

lemma zio_done_wait_False: "\<not> fst (zio_done_wait c) \<Longrightarrow> zio_done_wait c = (False, c)"
  by (auto simp: zio_done_wait_def zio_wait_for_children_def split: if_splits)

lemma zio_done_wait_True: "fst (zio_done_wait c) \<Longrightarrow> \<exists>c'. zio_done_wait c = (True, c')"
  by (cases "zio_done_wait c") simp

lemma zio_done_past_wait:
  assumes "zios w i = Some z" "\<not> fst (zio_done_wait z)"
    "zio_done_frees (zio_done_errors en env z) = Some frees"
  shows "\<exists>z6. io_parent_list z6 = io_parent_list z \<and> io_id z6 = io_id z \<and>
              (zio_done en env exec w i =
                 map_option (Pair True)
                   (zio_done_reexecute en env exec (w\<lparr> trace := trace w @ frees \<rparr>) i z6) \<or>
               zio_done en env exec w i =
                 map_option (Pair True)
                   (zio_done_complete en exec (w\<lparr> trace := trace w @ frees \<rparr>) i z6))"
proof -
  define z5 where "z5 = (zio_done_errors en env z)\<lparr> io_gang_tree := None \<rparr>"
  define z6 where "z6 = (if ZIO_FLAG_GODFATHER \<in> io_flags z5 \<and>
                            ZIO_REEXECUTE_SUSPEND \<in> io_reexecute z5
                         then z5\<lparr> io_reexecute := {} \<rparr> else z5)"
  have p: "io_parent_list z6 = io_parent_list z" "io_id z6 = io_id z"
    by (simp_all add: z6_def z5_def)
  have "zio_done en env exec w i =
          map_option (Pair True)
            (if io_reexecute z6 \<noteq> {}
             then zio_done_reexecute en env exec (w\<lparr> trace := trace w @ frees \<rparr>) i z6
             else zio_done_complete en exec (w\<lparr> trace := trace w @ frees \<rparr>) i z6)"
    unfolding z6_def z5_def using assms zio_done_wait_False[OF assms(2)]
    by (simp add: zio_done_def Let_def)
  then show ?thesis using p by (intro exI[of _ z6]) auto
qed

lemma adds_zio_done:
  assumes p: "\<And>e. \<not> is_entry e \<Longrightarrow> P e" and a: "adding P exec"
    and d: "zio_done en env exec w i = Some (rv, w')"
  shows "adds P w w'"
proof (cases "zios w i")
  case None
  with d have "w' = w\<lparr> fault := True \<rparr>" by (simp add: zio_done_def)
  then show ?thesis by (simp add: adds_fault)
next
  case (Some z)
  show ?thesis
  proof (cases "fst (zio_done_wait z)")
    case True
    from zio_done_wait_True[OF True] obtain y where "zio_done_wait z = (True, y)" by blast
    with d Some have "w' = w\<lparr> zios := (zios w)(i \<mapsto> y) \<rparr>" by (simp add: zio_done_def)
    then show ?thesis by (simp add: adds_same)
  next
    case False
    show ?thesis
    proof (cases "zio_done_frees (zio_done_errors en env z)")
      case None
      with d Some zio_done_wait_False[OF False] have "w' = w\<lparr> fault := True \<rparr>"
        by (simp add: zio_done_def Let_def)
      then show ?thesis by (simp add: adds_fault)
    next
      case fr: (Some frees)
      let ?w1 = "w\<lparr> trace := trace w @ frees \<rparr>"
      have a1: "adds P w ?w1" using done_frees_all[OF p fr] by (simp add: adds_def)
      from zio_done_past_wait[OF Some False fr, of exec]
      obtain z6 where "zio_done_reexecute en env exec ?w1 i z6 = Some w' \<or>
                       zio_done_complete en exec ?w1 i z6 = Some w'"
        unfolding d by (auto dest!: pair_true_some[OF sym])
      then have "adds P ?w1 w'"
        using adds_done_reexecute[OF p a] adds_done_complete[OF p a] by blast
      with a1 show ?thesis by (rule adds_trans)
    qed
  qed
qed


lemma trace_ready_nodata: "trace (snd (zio_ready_nodata gang w i)) = trace w"
  by (simp add: zio_ready_nodata_def split: option.splits)

lemma ready_wait_False: "\<not> fst (zio_ready_wait z) \<Longrightarrow> zio_ready_wait z = (False, z)"
  by (auto simp: zio_ready_wait_def zio_wait_for_children_def split: if_splits)

lemma ready_wait_True: "fst (zio_ready_wait z) \<Longrightarrow> \<exists>z'. zio_ready_wait z = (True, z')"
  by (cases "zio_ready_wait z") simp

lemma zio_ready_past_wait:
  assumes "zios w i = Some z" "\<not> fst (zio_ready_wait z)"
  shows "\<exists>z2. io_parent_list z2 = io_parent_list z \<and> io_stage z2 = io_stage z \<and>
           (io_pipeline z AND ZIO_STAGE_DONE \<noteq> 0 \<longrightarrow> io_pipeline z2 AND ZIO_STAGE_DONE \<noteq> 0) \<and>
           zio_ready en gang exec w i =
             map_option (\<lambda>w2. zio_ready_nodata gang w2 i)
               (ready_notify_all en exec (w\<lparr> zios := (zios w)(i \<mapsto> z2) \<rparr>) i (io_parent_list z2))"
proof -
  define z1 where "z1 = (if io_error z \<noteq> 0 then z\<lparr> io_pipeline := ZIO_INTERLOCK_PIPELINE \<rparr> else z)"
  define z2 where "z2 = z1\<lparr> io_state := (io_state z1)(ZIO_WAIT_READY := True) \<rparr>"
  have a: "io_parent_list z2 = io_parent_list z" "io_stage z2 = io_stage z"
    by (simp_all add: z2_def z1_def)
  have b: "io_pipeline z AND ZIO_STAGE_DONE \<noteq> 0 \<longrightarrow> io_pipeline z2 AND ZIO_STAGE_DONE \<noteq> 0"
    by (simp add: z2_def z1_def interlock_done)
  have "zio_ready en gang exec w i =
             map_option (\<lambda>w2. zio_ready_nodata gang w2 i)
               (ready_notify_all en exec (w\<lparr> zios := (zios w)(i \<mapsto> z2) \<rparr>) i (io_parent_list z2))"
    unfolding z2_def z1_def using assms ready_wait_False[OF assms(2)]
    by (simp add: zio_ready_def Let_def)
  with a b show ?thesis by blast
qed


lemma pipeline_cases:
  assumes "zio_pipeline en env gang dd other exec n = Some h"
  shows "h = zio_issue_async \<or> h = zio_checksum_generate \<or> h = zio_ddt_write dd \<or>
         h = zio_ready en gang exec \<or> h = zio_done en env exec \<or> h = other n"
  using assms by (auto simp: zio_pipeline_def split: if_splits)



section \<open>Termination of the execution loop\<close>

lemma entered_append: "entered i (xs @ ys) = entered i xs @ entered i ys"
  by (induction i xs rule: entered.induct) simp_all

lemma loop_done:
  "zios w i = Some z \<Longrightarrow> \<not> io_stage z < ZIO_STAGE_DONE \<Longrightarrow>
   zio_execute_loop ee table w i = Some w"
  by (subst zio_execute_loop.simps) simp

lemma loop_dispatch:
  "zios w i = Some z \<Longrightarrow> io_stage z < ZIO_STAGE_DONE \<Longrightarrow>
   zio_next_stage (io_pipeline z) (io_stage z) = Some stage \<Longrightarrow>
   stage AND blocking_stages ee \<noteq> 0 \<and> io_vd z = None \<and> on_interrupt_taskq ee \<Longrightarrow>
   zio_execute_loop ee table w i = Some (log_event w (Issue_dispatched i))"
  by (subst zio_execute_loop.simps) simp

lemma loop_nohandler:
  "zios w i = Some z \<Longrightarrow> io_stage z < ZIO_STAGE_DONE \<Longrightarrow>
   zio_next_stage (io_pipeline z) (io_stage z) = Some stage \<Longrightarrow>
   \<not> (stage AND blocking_stages ee \<noteq> 0 \<and> io_vd z = None \<and> on_interrupt_taskq ee) \<Longrightarrow>
   table (highbit64 stage - 1) = None \<Longrightarrow>
   zio_execute_loop ee table w i = Some (w\<lparr> fault := True \<rparr>)"
  by (subst zio_execute_loop.simps) auto

lemma loop_step:
  "zios w i = Some z \<Longrightarrow> io_stage z < ZIO_STAGE_DONE \<Longrightarrow>
   zio_next_stage (io_pipeline z) (io_stage z) = Some stage \<Longrightarrow>
   \<not> (stage AND blocking_stages ee \<noteq> 0 \<and> io_vd z = None \<and> on_interrupt_taskq ee) \<Longrightarrow>
   table (highbit64 stage - 1) = Some h \<Longrightarrow>
   h (log_event (w\<lparr> zios := (zios w)(i \<mapsto> z\<lparr> io_stage := stage \<rparr>) \<rparr>) (Stage_entered i stage)) i
     = Some (rv, w') \<Longrightarrow>
   zio_execute_loop ee table w i = (if rv then Some w' else zio_execute_loop ee table w' i)"
  by (subst zio_execute_loop.simps) auto

lemma loop_terminates:
  assumes rt: "returns ok table i" and ks: "keeps_stage ok table i"
    and nr: "not_reentrant ok table i" and sb: "stage_blind ok"
  shows "zios w i = Some z \<Longrightarrow> ok z \<Longrightarrow> io_stage z = push_bit k 1 \<Longrightarrow> k \<le> 21 \<Longrightarrow>
     bit (io_pipeline z) 21 \<Longrightarrow>
     \<exists>w' new. zio_execute_loop ee table w i = Some w' \<and>
       entered i (trace w') = entered i (trace w) @ new \<and> sorted_wrt (<) new \<and>
       (\<forall>s \<in> set new. \<exists>j. k < j \<and> j \<le> 21 \<and> s = push_bit j 1) \<and>
       length new \<le> 21 - k"
proof (induction "21 - k" arbitrary: k w z rule: less_induct)
  case less
  note z = less.prems(1) and okz = less.prems(2) and st = less.prems(3)
    and k21 = less.prems(4) and pd = less.prems(5)
  show ?case
  proof (cases "k = 21")
    case True
    have "\<not> io_stage z < ZIO_STAGE_DONE" unfolding st using stage_less_done[of k] True by simp
    from loop_done[where table = table and ee = ee, OF z this]
    show ?thesis by (intro exI[of _ w] exI[of _ "[]"]) simp
  next
    case False
    then have k: "k < 21" using k21 by simp
    have lt: "io_stage z < ZIO_STAGE_DONE" unfolding st using stage_less_done[of k] k by simp
    from next_stage_exists[OF pd k]
    obtain j where j: "k < j" "j \<le> 21"
      and ns: "zio_next_stage (io_pipeline z) (io_stage z) = Some (push_bit j 1)"
      unfolding st by blast
    let ?stage = "push_bit j 1 :: 32 word"
    show ?thesis
    proof (cases "?stage AND blocking_stages ee \<noteq> 0 \<and> io_vd z = None \<and> on_interrupt_taskq ee")
      case True
      from loop_dispatch[where table = table, OF z lt ns True]
      show ?thesis
        by (intro exI[of _ "log_event w (Issue_dispatched i)"] exI[of _ "[]"])
           (simp add: log_event_def entered_append)
    next
      case nd: False
      show ?thesis
      proof (cases "table (highbit64 ?stage - 1)")
        case None
        from loop_nohandler[where table = table and ee = ee, OF z lt ns nd None]
        show ?thesis by (intro exI[of _ "w\<lparr> fault := True \<rparr>"] exI[of _ "[]"]) simp
      next
        case (Some h)
        let ?z1 = "z\<lparr> io_stage := ?stage \<rparr>"
        let ?w1 = "log_event (w\<lparr> zios := (zios w)(i \<mapsto> ?z1) \<rparr>) (Stage_entered i ?stage)"
        have z1: "zios ?w1 i = Some ?z1" by (simp add: log_event_def)
        have ok1: "ok ?z1" using sb okz unfolding stage_blind_def by blast
        have "h ?w1 i \<noteq> None"
          using rt Some z1 ok1 unfolding returns_def by blast
        then obtain rv w2 where h: "h ?w1 i = Some (rv, w2)" by (cases "h ?w1 i") auto
        have "entered i (trace w2) = entered i (trace ?w1)"
          using nr Some z1 ok1 h unfolding not_reentrant_def by blast
        then have e2: "entered i (trace w2) = entered i (trace w) @ [?stage]"
          by (simp add: log_event_def entered_append del: push_bit_of_1)
        note step = loop_step[where table = table and ee = ee, OF z lt ns nd Some h]
        show ?thesis
        proof (cases rv)
          case True
          have "zio_execute_loop ee table w i = Some w2" unfolding step using True by simp
          moreover have "\<forall>s \<in> set [?stage]. \<exists>j. k < j \<and> j \<le> 21 \<and> s = push_bit j 1"
            using j by auto
          moreover have "length [?stage] \<le> 21 - k" using k by simp
          ultimately show ?thesis using e2
            by (intro exI[of _ w2] exI[of _ "[?stage]"] conjI) simp_all
        next
          case False
          have hf: "h ?w1 i = Some (False, w2)" using h False by simp
          have pd1: "io_pipeline ?z1 AND ZIO_STAGE_DONE \<noteq> 0"
            using pd by (simp add: done_bit)
          from ks[unfolded keeps_stage_def, rule_format, OF Some z1 ok1 hf]
          obtain z' where z': "zios w2 i = Some z'" "ok z'" "io_stage z' = ?stage"
            "io_pipeline z' AND ZIO_STAGE_DONE \<noteq> 0"
            using pd1 by auto
          have pd2: "bit (io_pipeline z') 21" using z'(4) by (simp add: done_bit)
          have m: "21 - j < 21 - k" using j k by simp
          from less.hyps[OF m z'(1) z'(2) z'(3) j(2) pd2]
          obtain w' new where r: "zio_execute_loop ee table w2 i = Some w'"
            "entered i (trace w') = entered i (trace w2) @ new" "sorted_wrt (<) new"
            "\<forall>s \<in> set new. \<exists>l. j < l \<and> l \<le> 21 \<and> s = push_bit l 1"
            "length new \<le> 21 - j"
            by blast
          have a: "zio_execute_loop ee table w i = Some w'" unfolding step using False r(1) by simp
          have b: "entered i (trace w') = entered i (trace w) @ (?stage # new)"
            unfolding r(2) e2 by simp
          have c: "sorted_wrt (<) (?stage # new)"
          proof -
            have "\<forall>s \<in> set new. ?stage < s"
            proof
              fix s assume "s \<in> set new"
              with r(4) obtain l where l: "j < l" "l \<le> 21" "s = push_bit l 1" by blast
              show "?stage < s" unfolding l(3) using stage_mono[OF l(1)] l(2) by simp
            qed
            with r(3) show ?thesis by simp
          qed
          have d: "\<forall>s \<in> set (?stage # new). \<exists>l. k < l \<and> l \<le> 21 \<and> s = push_bit l 1"
          proof
            fix s assume "s \<in> set (?stage # new)"
            then consider "s = ?stage" | "s \<in> set new" by auto
            then show "\<exists>l. k < l \<and> l \<le> 21 \<and> s = push_bit l 1"
            proof cases
              case 1
              then show ?thesis using j by blast
            next
              case 2
              with r(4) obtain l where l: "j < l" "l \<le> 21" "s = push_bit l 1" by blast
              then show ?thesis using j(1) by (intro exI[of _ l]) simp
            qed
          qed
          have e: "length (?stage # new) \<le> 21 - k" using r(5) j by simp
          from a b c d e show ?thesis by blast
        qed
      qed
    qed
  qed
qed

section \<open>Requests without parents\<close>

lemma reexecute_np:
  assumes "io_parent_list z = []"
  shows "zio_done_reexecute en env exec w i z = zio_done_reexecute en env exec' w i z \<and>
         zio_done_reexecute en env exec w i z \<noteq> None"
  using assms by (simp add: zio_done_reexecute_def Let_def done_reexecute_tail_def)

lemma complete_np:
  assumes "io_parent_list z = []"
  shows "zio_done_complete en exec w i z = zio_done_complete en exec' w i z \<and>
         zio_done_complete en exec w i z \<noteq> None"
  using assms by (simp add: zio_done_complete_def)

lemma zio_done_np:
  assumes z: "zios w i = Some z" and np: "io_parent_list z = []"
  shows "zio_done en env exec w i = zio_done en env exec' w i \<and>
         (\<exists>w'. zio_done en env exec w i = Some (True, w'))"
proof (cases "fst (zio_done_wait z)")
  case True
  from zio_done_wait_True[OF True] obtain y where "zio_done_wait z = (True, y)" by blast
  then show ?thesis using z by (simp add: zio_done_def)
next
  case False
  show ?thesis
  proof (cases "zio_done_frees (zio_done_errors en env z)")
    case None
    then show ?thesis using z zio_done_wait_False[OF False] by (simp add: zio_done_def Let_def)
  next
    case (Some frees)
    let ?w1 = "w\<lparr> trace := trace w @ frees \<rparr>"
    from zio_done_past_wait[OF z False Some, of exec]
    obtain z6 where p: "io_parent_list z6 = io_parent_list z"
      and a: "zio_done en env exec w i =
                map_option (Pair True) (zio_done_reexecute en env exec ?w1 i z6) \<or>
              zio_done en env exec w i =
                map_option (Pair True) (zio_done_complete en exec ?w1 i z6)"
      by blast
    have unf: "\<And>x. zio_done en env x w i =
          map_option (Pair True)
            (let z5 = (zio_done_errors en env z)\<lparr> io_gang_tree := None \<rparr>;
                 z6 = (if ZIO_FLAG_GODFATHER \<in> io_flags z5 \<and> ZIO_REEXECUTE_SUSPEND \<in> io_reexecute z5
                       then z5\<lparr> io_reexecute := {} \<rparr> else z5)
             in if io_reexecute z6 \<noteq> {}
                then zio_done_reexecute en env x ?w1 i z6
                else zio_done_complete en x ?w1 i z6)"
      using z zio_done_wait_False[OF False] Some by (simp add: zio_done_def Let_def)
    have q: "\<And>z5. io_parent_list
               (if ZIO_FLAG_GODFATHER \<in> io_flags z5 \<and> ZIO_REEXECUTE_SUSPEND \<in> io_reexecute z5
                then z5\<lparr> io_reexecute := {} \<rparr> else z5) = io_parent_list z5"
      by simp
    have e: "zio_done en env exec w i = zio_done en env exec' w i"
      unfolding unf Let_def
      using reexecute_np[where exec = exec and exec' = exec'] complete_np[where exec = exec and exec' = exec']
      by (simp add: np)
    have "zio_done_reexecute en env exec ?w1 i z6 \<noteq> None" "zio_done_complete en exec ?w1 i z6 \<noteq> None"
      using reexecute_np[of z6] complete_np[of z6] p np by auto
    with a have "\<exists>w'. zio_done en env exec w i = Some (True, w')" by auto
    with e show ?thesis by blast
  qed
qed

lemma zio_done_np_returns:
  assumes "zios w i = Some z" "io_parent_list z = []"
  shows "\<exists>w'. zio_done en env exec w i = Some (True, w')"
  using zio_done_np[OF assms, of en env exec exec] by simp

lemma zio_ready_np:
  assumes z: "zios w i = Some z" and np: "io_parent_list z = []"
  shows "\<exists>rv w'. zio_ready en gang exec w i = Some (rv, w') \<and> trace w' = trace w \<and>
           (\<not> rv \<longrightarrow> (\<exists>z'. zios w' i = Some z' \<and> io_parent_list z' = [] \<and>
                io_stage z' = io_stage z \<and>
                (io_pipeline z AND ZIO_STAGE_DONE \<noteq> 0 \<longrightarrow> io_pipeline z' AND ZIO_STAGE_DONE \<noteq> 0)))"
proof (cases "fst (zio_ready_wait z)")
  case True
  from ready_wait_True[OF True] obtain y where "zio_ready_wait z = (True, y)" by blast
  then have "zio_ready en gang exec w i = Some (True, w\<lparr> zios := (zios w)(i \<mapsto> y) \<rparr>)"
    using z by (simp add: zio_ready_def)
  then show ?thesis by (intro exI[of _ True] exI[of _ "w\<lparr> zios := (zios w)(i \<mapsto> y) \<rparr>"]) simp
next
  case False
  from zio_ready_past_wait[OF z False, of en gang exec]
  obtain z2 where z2: "io_parent_list z2 = io_parent_list z" "io_stage z2 = io_stage z"
    "io_pipeline z AND ZIO_STAGE_DONE \<noteq> 0 \<longrightarrow> io_pipeline z2 AND ZIO_STAGE_DONE \<noteq> 0"
    and u: "zio_ready en gang exec w i =
             map_option (\<lambda>w2. zio_ready_nodata gang w2 i)
               (ready_notify_all en exec (w\<lparr> zios := (zios w)(i \<mapsto> z2) \<rparr>) i (io_parent_list z2))"
    by blast
  let ?w1 = "w\<lparr> zios := (zios w)(i \<mapsto> z2) \<rparr>"
  have r: "zio_ready en gang exec w i = Some (zio_ready_nodata gang ?w1 i)"
    unfolding u using z2(1) np by simp
  have z1: "zios ?w1 i = Some z2" by simp
  obtain rv w' where n: "zio_ready_nodata gang ?w1 i = (rv, w')" by (cases "zio_ready_nodata gang ?w1 i")
  have t: "trace w' = trace w" using trace_ready_nodata[of gang ?w1 i] n by simp
  have k: "\<not> rv \<longrightarrow> (\<exists>z'. zios w' i = Some z' \<and> io_parent_list z' = [] \<and>
                io_stage z' = io_stage z \<and>
                (io_pipeline z AND ZIO_STAGE_DONE \<noteq> 0 \<longrightarrow> io_pipeline z' AND ZIO_STAGE_DONE \<noteq> 0))"
    using n z1 z2 np
    by (auto simp: zio_ready_nodata_def vdev_stages_done split: if_splits option.splits)
  from r n t k show ?thesis by simp
qed

lemma adds_entered:
  assumes "adds (\<lambda>e. \<not> is_entry e) w w'"
  shows "entered i (trace w') = entered i (trace w)"
proof -
  have n: "\<And>rest. list_all (\<lambda>e. \<not> is_entry e) rest \<Longrightarrow> entered i rest = []"
  proof -
    fix rest show "list_all (\<lambda>e. \<not> is_entry e) rest \<Longrightarrow> entered i rest = []"
      by (induction i rest rule: entered.induct) simp_all
  qed
  from assms show ?thesis unfolding adds_def by (auto simp: entered_append n)
qed

lemma zio_done_np_entered:
  assumes z: "zios w i = Some z" and np: "io_parent_list z = []"
    and d: "zio_done en env exec w i = Some (rv, w')"
  shows "entered j (trace w') = entered j (trace w)"
proof -
  have a: "adding (\<lambda>e. \<not> is_entry e) (\<lambda>w p. None)" by (simp add: adding_def)
  from zio_done_np[OF z np, of en env exec "\<lambda>w p. None"]
  have "zio_done en env (\<lambda>w p. None) w i = zio_done en env exec w i" by simp
  with d have "zio_done en env (\<lambda>w p. None) w i = Some (rv, w')" by simp
  from adds_zio_done[where P = "\<lambda>e. \<not> is_entry e", OF _ a this]
  have "adds (\<lambda>e. \<not> is_entry e) w w'" by simp
  then show ?thesis by (rule adds_entered)
qed

lemma plain_ddt_write:
  "zio_ddt_write plain_ddt w i = Some (False, w) \<or>
   zio_ddt_write plain_ddt w i = Some (True, w\<lparr> fault := True \<rparr>)"
  by (simp add: zio_ddt_write_def plain_ddt_def split: option.splits)

lemma plain_table_cases:
  assumes "plain_table d n = Some h"
  obtains "h = zio_issue_async" | "h = zio_checksum_generate" | "h = zio_ddt_write plain_ddt"
    | "h = zio_ready freebsd_errnos no_gang (plain_run d)"
    | "h = zio_done freebsd_errnos example_env (plain_run d)"
    | "h = unmodelled n"
  using pipeline_cases[OF assms[unfolded plain_table_def]] by blast

lemma plain_table_returns: "returns no_parents (plain_table d) i"
  unfolding returns_def
proof (intro allI impI)
  fix n h and w :: world and z
  assume t: "plain_table d n = Some h" and z: "zios w i = Some z" and ok: "no_parents z"
  from t show "h w i \<noteq> None"
  proof (cases rule: plain_table_cases)
    case 1
    show ?thesis unfolding 1 by (simp add: zio_issue_async_def)
  next
    case 2
    show ?thesis unfolding 2 by (auto simp: zio_checksum_generate_def split: option.splits)
  next
    case 3
    show ?thesis unfolding 3 using plain_ddt_write[of w i] by auto
  next
    case 4
    show ?thesis unfolding 4
      using zio_ready_np[OF z ok[unfolded no_parents_def], of freebsd_errnos no_gang "plain_run d"]
      by auto
  next
    case 5
    show ?thesis unfolding 5
      using zio_done_np_returns[OF z ok[unfolded no_parents_def], of freebsd_errnos example_env "plain_run d"]
      by auto
  next
    case 6
    show ?thesis unfolding 6 by (simp add: unmodelled_def)
  qed
qed

lemma plain_table_keeps_stage: "keeps_stage no_parents (plain_table d) i"
  unfolding keeps_stage_def
proof (intro allI impI)
  fix n h w z w'
  assume t: "plain_table d n = Some h" and z: "zios w i = Some z" and ok: "no_parents z"
    and h: "h w i = Some (False, w')"
  from t show "\<exists>z'. zios w' i = Some z' \<and> no_parents z' \<and> io_stage z' = io_stage z \<and>
              (io_pipeline z AND ZIO_STAGE_DONE \<noteq> 0 \<longrightarrow> io_pipeline z' AND ZIO_STAGE_DONE \<noteq> 0)"
  proof (cases rule: plain_table_cases)
    case 1
    show ?thesis unfolding 1 using h[unfolded 1] by (simp add: zio_issue_async_def)
  next
    case 2
    show ?thesis unfolding 2 using h[unfolded 2] z ok by (simp add: zio_checksum_generate_def)
  next
    case 3
    show ?thesis unfolding 3 using h[unfolded 3] z ok plain_ddt_write[of w i] by auto
  next
    case 4
    show ?thesis unfolding 4
      using zio_ready_np[OF z ok[unfolded no_parents_def], of freebsd_errnos no_gang "plain_run d"] h[unfolded 4]
      by (auto simp: no_parents_def)
  next
    case 5
    show ?thesis unfolding 5
      using zio_done_np_returns[OF z ok[unfolded no_parents_def], of freebsd_errnos example_env "plain_run d"] h[unfolded 5]
      by auto
  next
    case 6
    show ?thesis unfolding 6 using h[unfolded 6] by (simp add: unmodelled_def)
  qed
qed

lemma plain_table_not_reentrant: "not_reentrant no_parents (plain_table d) i"
  unfolding not_reentrant_def
proof (intro allI impI)
  fix n h w z rv w'
  assume t: "plain_table d n = Some h" and z: "zios w i = Some z" and ok: "no_parents z"
    and h: "h w i = Some (rv, w')"
  from t show "entered i (trace w') = entered i (trace w)"
  proof (cases rule: plain_table_cases)
    case 1
    show ?thesis unfolding 1 using h[unfolded 1] by (auto simp: zio_issue_async_def log_event_def entered_append)
  next
    case 2
    show ?thesis unfolding 2 using h[unfolded 2] by (auto simp: zio_checksum_generate_def split: option.splits)
  next
    case 3
    show ?thesis unfolding 3 using h[unfolded 3] plain_ddt_write[of w i] by auto
  next
    case 4
    show ?thesis unfolding 4
      using zio_ready_np[OF z ok[unfolded no_parents_def], of freebsd_errnos no_gang "plain_run d"] h[unfolded 4]
      by auto
  next
    case 5
    show ?thesis unfolding 5
      using zio_done_np_entered[OF z ok[unfolded no_parents_def]] h[unfolded 5] by blast
  next
    case 6
    show ?thesis unfolding 6 using h[unfolded 6] by (auto simp: unmodelled_def)
  qed
qed

lemma no_parents_stage_blind: "stage_blind no_parents"
  by (simp add: stage_blind_def no_parents_def)

text \<open>
  C9.  Each turn of the loop of \<open>zio_execute\<close> moves the request to the next
  stage of its pipeline above the stage it has and calls the handler of that
  stage.  Take a condition on the request that does not look at its stage, and a
  table of handlers that, called for a request with the condition, return, do not
  run the pipeline of that request and, when they return
  \<open>ZIO_PIPELINE_CONTINUE\<close>, keep the condition, do not move the stage and do not
  take the done stage out of the pipeline.  Then for a request with the condition,
  at a single stage up to the done stage, whose pipeline includes the done stage,
  \<open>zio_execute\<close> returns, the stages it enters are strictly increasing, all above
  the stage the request had and none above the done stage, and there are at most
  as many as there are stages above the one the request had.
\<close>

theorem zio_execute_terminates:
  assumes "returns ok table i"
    and "keeps_stage ok table i"
    and "not_reentrant ok table i"
    and "stage_blind ok"
    and "zios w i = Some z"
    and "ok z"
    and "io_stage z = push_bit k 1"
    and "k \<le> 21"
    and "io_pipeline z AND ZIO_STAGE_DONE \<noteq> 0"
  shows "\<exists>w' new. zio_execute ee table w i = Some w' \<and>
           entered i (trace w') = entered i (trace w) @ new \<and>
           sorted_wrt (<) new \<and>
           (\<forall>s \<in> set new. io_stage z < s \<and> s \<le> ZIO_STAGE_DONE) \<and>
           length new \<le> 21 - k"
proof -
  let ?z = "z\<lparr> io_executor := True \<rparr>"
  let ?w = "upd_zio w i (\<lambda>z. z\<lparr> io_executor := True \<rparr>)"
  have a: "zios ?w i = Some ?z" using assms(5) by (simp add: upd_zio_def)
  have o: "ok ?z" using assms(4) assms(6) unfolding stage_blind_def by blast
  have b: "io_stage ?z = push_bit k 1" using assms(7) by simp
  have c: "bit (io_pipeline ?z) 21" using assms(9) by (simp add: done_bit)
  from loop_terminates[OF assms(1) assms(2) assms(3) assms(4) a o b assms(8) c, of ee]
  obtain w' new where r: "zio_execute_loop ee table ?w i = Some w'"
    "entered i (trace w') = entered i (trace ?w) @ new" "sorted_wrt (<) new"
    "\<forall>s \<in> set new. \<exists>j. k < j \<and> j \<le> 21 \<and> s = push_bit j 1"
    "length new \<le> 21 - k"
    by blast
  have d: "\<forall>s \<in> set new. io_stage z < s \<and> s \<le> ZIO_STAGE_DONE"
  proof
    fix s assume "s \<in> set new"
    with r(4) obtain j where j: "k < j" "j \<le> 21" "s = push_bit j 1" by blast
    show "io_stage z < s \<and> s \<le> ZIO_STAGE_DONE"
      unfolding j(3) assms(7) using stage_mono[OF j(1)] stage_le_done[OF j(2)] j(2) by simp
  qed
  have e: "entered i (trace w') = entered i (trace w) @ new" using r(2) by simp
  have f: "zio_execute ee table w i = Some w'" using r(1) by (simp add: zio_execute_def)
  from f e r(3) d r(5) show ?thesis by blast
qed

theorem zio_execute_terminates_witness:
  "returns no_parents (plain_table 1) 1 \<and> keeps_stage no_parents (plain_table 1) 1 \<and>
   not_reentrant no_parents (plain_table 1) 1 \<and> stage_blind no_parents \<and>
   zios example_null_world 1 = Some example_null \<and>
   no_parents example_null \<and>
   io_stage example_null = push_bit 0 1 \<and>
   io_pipeline example_null AND ZIO_STAGE_DONE \<noteq> 0 \<and>
   (\<exists>w' new. zio_execute example_exec (plain_table 1) example_null_world 1 = Some w' \<and>
      entered 1 (trace w') = entered 1 (trace example_null_world) @ new \<and>
      sorted_wrt (<) new \<and>
      (\<forall>s \<in> set new. io_stage example_null < s \<and> s \<le> ZIO_STAGE_DONE) \<and>
      length new \<le> 21 - 0)"
proof -
  have h5: "zios example_null_world 1 = Some example_null"
    by (simp add: example_null_world_def empty_world_def)
  have h6: "no_parents example_null"
    by (simp add: no_parents_def example_null_def zio_zero_def)
  have h7: "io_stage example_null = push_bit 0 1"
    by (simp add: example_null_def ZIO_STAGE_OPEN_def)
  have h8: "(0::nat) \<le> 21" by simp
  have h9: "io_pipeline example_null AND ZIO_STAGE_DONE \<noteq> 0"
    by (simp add: example_null_def interlock_done)
  note T = zio_execute_terminates[OF plain_table_returns[of 1 1] plain_table_keeps_stage[of 1 1]
      plain_table_not_reentrant[of 1 1] no_parents_stage_blind h5 h6 h7 h8 h9,
      where ee = example_exec]
  from T h5 h6 h7 h9 plain_table_returns[of 1 1] plain_table_keeps_stage[of 1 1]
    plain_table_not_reentrant[of 1 1] no_parents_stage_blind
  show ?thesis by (simp del: push_bit_of_1)
qed

theorem zio_execute_restart_counterexample:
  "io_pipeline example_dedup_write AND ZIO_STAGE_DONE \<noteq> 0 \<and>
   map_option (entered 1) (map_option trace (ditto_run 1 example_dedup_world 1)) =
     Some [ZIO_STAGE_DDT_WRITE, ZIO_STAGE_ISSUE_ASYNC] \<and>
   ZIO_STAGE_ISSUE_ASYNC < ZIO_STAGE_DDT_WRITE"
  by code_simp

section \<open>The unwinding of a failed allocating write\<close>





section \<open>Propagation of a child's error (zio\_worst\_error, zio\_notify\_parent)\<close>

lemma rank_search_spec:
  "distinct [0, ENXIO en, ECKSUM en, EIO en] \<Longrightarrow>
   rank_search e (zio_error_rank en) = spec_error_rank en e"
  by (auto simp: zio_error_rank_def spec_error_rank_def)

lemma worst_error_spec:
  assumes "distinct [0, ENXIO en, ECKSUM en, EIO en]"
  shows "zio_worst_error en e1 e2 \<in> {e1, e2} \<and>
         spec_error_rank en (zio_worst_error en e1 e2)
           = max (spec_error_rank en e1) (spec_error_rank en e2)"
  by (auto simp: zio_worst_error_def Let_def rank_search_spec[OF assms])

lemma notify_parent_child_error:
  "io_child_error (fst (zio_notify_parent en p c wt)) ct =
     (if io_error c \<noteq> 0 \<and> ZIO_FLAG_DONT_PROPAGATE \<notin> io_flags c \<and> ct = io_child_type c
      then zio_worst_error en (io_child_error p ct) (io_error c)
      else io_child_error p ct)"
  by (auto simp: zio_notify_parent_def Let_def)

lemma notify_step_effect:
  assumes "zios w cio = Some c" "zios w (zl_parent zl) = Some p" "zl_parent zl \<noteq> cio"
    "io_stall p \<noteq> Some (io_child_type c, ZIO_WAIT_DONE)"
  shows "\<exists>w' c' p'. notify_parent_in en exec (zio_remove_child w (zl_parent zl) cio zl)
             (zl_parent zl) cio ZIO_WAIT_DONE = Some w' \<and>
           zios w' cio = Some c' \<and>
           io_error c' = io_error c \<and> io_flags c' = io_flags c \<and>
           io_child_type c' = io_child_type c \<and>
           zios w' (zl_parent zl) = Some p' \<and>
           io_child_error p' = (\<lambda>ct. if io_error c \<noteq> 0 \<and> ZIO_FLAG_DONT_PROPAGATE \<notin> io_flags c \<and>
                                       ct = io_child_type c
                                    then zio_worst_error en (io_child_error p ct) (io_error c)
                                    else io_child_error p ct) \<and>
           (\<forall>q. q \<noteq> cio \<and> q \<noteq> zl_parent zl \<longrightarrow> zios w' q = zios w q)"
proof -
  let ?pio = "zl_parent zl"
  define p1 where "p1 = p\<lparr> io_child_list := list_remove zl (io_child_list p),
                            io_child_count := io_child_count p - 1 \<rparr>"
  define c1 where "c1 = c\<lparr> io_parent_list := list_remove zl (io_parent_list c),
                            io_parent_count := io_parent_count c - 1 \<rparr>"
  define w1 where "w1 = zio_remove_child w ?pio cio zl"
  have z1: "zios w1 = (zios w)(?pio \<mapsto> p1, cio \<mapsto> c1)"
    using assms(1,2,3)
    by (simp add: w1_def zio_remove_child_def upd_zio_def log_event_def Let_def p1_def c1_def)
  have zp: "zios w1 ?pio = Some p1" and zc: "zios w1 cio = Some c1"
    using assms(3) by (simp_all add: z1)
  obtain p' run where n: "zio_notify_parent en p1 c1 ZIO_WAIT_DONE = (p', run)"
    by (cases "zio_notify_parent en p1 c1 ZIO_WAIT_DONE")
  have st: "io_stall p1 \<noteq> Some (io_child_type c1, ZIO_WAIT_DONE)"
    using assms(4) by (simp add: p1_def c1_def)
  have nr: "\<not> run" using n st by (auto simp: zio_notify_parent_def Let_def split: if_splits)
  have ce: "io_child_error p' = (\<lambda>ct. if io_error c \<noteq> 0 \<and> ZIO_FLAG_DONT_PROPAGATE \<notin> io_flags c \<and>
                                       ct = io_child_type c
                                    then zio_worst_error en (io_child_error p ct) (io_error c)
                                    else io_child_error p ct)"
    using notify_parent_child_error[of en p1 c1 ZIO_WAIT_DONE] n
    by (auto simp: fun_eq_iff p1_def c1_def)
  let ?w' = "w1\<lparr> zios := (zios w1)(?pio \<mapsto> p') \<rparr>"
  have r: "notify_parent_in en exec (zio_remove_child w (zl_parent zl) cio zl)
             (zl_parent zl) cio ZIO_WAIT_DONE = Some ?w'"
    unfolding w1_def[symmetric] using zp zc n nr
    by (simp add: notify_parent_in_def)
  have a: "zios ?w' cio = Some c1" using assms(3) zc by simp
  have b: "zios ?w' ?pio = Some p'" by simp
  have d: "\<forall>q. q \<noteq> cio \<and> q \<noteq> ?pio \<longrightarrow> zios ?w' q = zios w q" by (simp add: z1)
  have e: "io_error c1 = io_error c" "io_flags c1 = io_flags c" "io_child_type c1 = io_child_type c"
    by (simp_all add: c1_def)
  from r a b ce d e show ?thesis by blast
qed

lemma notify_all_effect:
  assumes "zios w cio = Some c" "distinct (map zl_parent ls)" "cio \<notin> zl_parent ` set ls"
    "\<forall>zl \<in> set ls. \<exists>p. zios w (zl_parent zl) = Some p \<and>
        io_stall p \<noteq> Some (io_child_type c, ZIO_WAIT_DONE)"
  shows "\<exists>w'. done_notify_all en exec w cio ls = Some w' \<and>
         (\<exists>c'. zios w' cio = Some c' \<and>
            io_error c' = io_error c \<and> io_flags c' = io_flags c \<and>
            io_child_type c' = io_child_type c) \<and>
         (\<forall>zl \<in> set ls. \<exists>p p'. zios w (zl_parent zl) = Some p \<and>
            zios w' (zl_parent zl) = Some p' \<and>
            io_child_error p' =
              (\<lambda>ct. if io_error c \<noteq> 0 \<and> ZIO_FLAG_DONT_PROPAGATE \<notin> io_flags c \<and>
                        ct = io_child_type c
                     then zio_worst_error en (io_child_error p ct) (io_error c)
                     else io_child_error p ct)) \<and>
         (\<forall>q. q \<noteq> cio \<and> q \<notin> zl_parent ` set ls \<longrightarrow> zios w' q = zios w q)"
  using assms
proof (induction ls arbitrary: w c)
  case Nil
  then show ?case by simp
next
  case (Cons zl ls)
  from Cons.prems(4) obtain p where p: "zios w (zl_parent zl) = Some p"
    and ps: "io_stall p \<noteq> Some (io_child_type c, ZIO_WAIT_DONE)" by auto
  from Cons.prems have ne: "zl_parent zl \<noteq> cio" by auto
  from notify_step_effect[OF Cons.prems(1) p ne ps, of en exec] obtain w1 c1 p1 where
    s: "notify_parent_in en exec (zio_remove_child w (zl_parent zl) cio zl)
             (zl_parent zl) cio ZIO_WAIT_DONE = Some w1"
    and c1: "zios w1 cio = Some c1"
      "io_error c1 = io_error c" "io_flags c1 = io_flags c" "io_child_type c1 = io_child_type c"
    and p1: "zios w1 (zl_parent zl) = Some p1"
      "io_child_error p1 =
              (\<lambda>ct. if io_error c \<noteq> 0 \<and> ZIO_FLAG_DONT_PROPAGATE \<notin> io_flags c \<and>
                        ct = io_child_type c
                     then zio_worst_error en (io_child_error p ct) (io_error c)
                     else io_child_error p ct)"
    and oth: "\<forall>q. q \<noteq> cio \<and> q \<noteq> zl_parent zl \<longrightarrow> zios w1 q = zios w q"
    by blast
  have d: "distinct (map zl_parent ls)" "cio \<notin> zl_parent ` set ls"
    "zl_parent zl \<notin> zl_parent ` set ls"
    using Cons.prems by auto
  have ex: "\<forall>zl' \<in> set ls. \<exists>p. zios w1 (zl_parent zl') = Some p \<and>
        io_stall p \<noteq> Some (io_child_type c1, ZIO_WAIT_DONE)"
  proof
    fix zl' assume a: "zl' \<in> set ls"
    then have "zl_parent zl' \<in> zl_parent ` set ls" by (rule imageI)
    with d have "zl_parent zl' \<noteq> cio" "zl_parent zl' \<noteq> zl_parent zl" by auto
    with oth have "zios w1 (zl_parent zl') = zios w (zl_parent zl')" by simp
    with Cons.prems(4) a show "\<exists>p. zios w1 (zl_parent zl') = Some p \<and>
        io_stall p \<noteq> Some (io_child_type c1, ZIO_WAIT_DONE)"
      unfolding c1(4) by simp
  qed
  from Cons.IH[OF c1(1) d(1) d(2) ex] obtain w' where
    r: "done_notify_all en exec w1 cio ls = Some w'"
    and i1: "\<exists>c'. zios w' cio = Some c' \<and>
            io_error c' = io_error c1 \<and> io_flags c' = io_flags c1 \<and>
            io_child_type c' = io_child_type c1"
    and i2: "\<forall>zl \<in> set ls. \<exists>p p'. zios w1 (zl_parent zl) = Some p \<and>
            zios w' (zl_parent zl) = Some p' \<and>
            io_child_error p' =
              (\<lambda>ct. if io_error c1 \<noteq> 0 \<and> ZIO_FLAG_DONT_PROPAGATE \<notin> io_flags c1 \<and>
                        ct = io_child_type c1
                     then zio_worst_error en (io_child_error p ct) (io_error c1)
                     else io_child_error p ct)"
    and i3: "\<forall>q. q \<noteq> cio \<and> q \<notin> zl_parent ` set ls \<longrightarrow> zios w' q = zios w1 q"
    by blast
  have unf: "done_notify_all en exec w cio (zl # ls) = Some w'"
    using s r by simp
  have g1: "\<exists>c'. zios w' cio = Some c' \<and>
            io_error c' = io_error c \<and> io_flags c' = io_flags c \<and>
            io_child_type c' = io_child_type c"
    using i1 c1 by auto
  have g3: "\<forall>q. q \<noteq> cio \<and> q \<notin> zl_parent ` set (zl # ls) \<longrightarrow> zios w' q = zios w q"
    using i3 oth by auto
  have g2: "\<forall>z \<in> set (zl # ls). \<exists>p p'. zios w (zl_parent z) = Some p \<and>
            zios w' (zl_parent z) = Some p' \<and>
            io_child_error p' =
              (\<lambda>ct. if io_error c \<noteq> 0 \<and> ZIO_FLAG_DONT_PROPAGATE \<notin> io_flags c \<and>
                        ct = io_child_type c
                     then zio_worst_error en (io_child_error p ct) (io_error c)
                     else io_child_error p ct)"
  proof
    fix z assume "z \<in> set (zl # ls)"
    then consider "z = zl" | "z \<in> set ls" by auto
    then show "\<exists>p p'. zios w (zl_parent z) = Some p \<and>
            zios w' (zl_parent z) = Some p' \<and>
            io_child_error p' =
              (\<lambda>ct. if io_error c \<noteq> 0 \<and> ZIO_FLAG_DONT_PROPAGATE \<notin> io_flags c \<and>
                        ct = io_child_type c
                     then zio_worst_error en (io_child_error p ct) (io_error c)
                     else io_child_error p ct)"
    proof cases
      case 1
      from i3 d(3) ne have "zios w' (zl_parent zl) = zios w1 (zl_parent zl)" by blast
      then have "zios w' (zl_parent zl) = Some p1" using p1(1) by simp
      with 1 p p1(2) show ?thesis by blast
    next
      case 2
      then have "zl_parent z \<in> zl_parent ` set ls" by (rule imageI)
      with d have "zl_parent z \<noteq> cio" "zl_parent z \<noteq> zl_parent zl" by auto
      with oth have same: "zios w1 (zl_parent z) = zios w (zl_parent z)" by simp
      from i2 2 obtain q q' where "zios w1 (zl_parent z) = Some q"
        "zios w' (zl_parent z) = Some q'"
        "io_child_error q' =
              (\<lambda>ct. if io_error c1 \<noteq> 0 \<and> ZIO_FLAG_DONT_PROPAGATE \<notin> io_flags c1 \<and>
                        ct = io_child_type c1
                     then zio_worst_error en (io_child_error q ct) (io_error c1)
                     else io_child_error q ct)"
        by blast
      note q = this
      have a: "zios w (zl_parent z) = Some q" using same q(1) by simp
      have c: "io_child_error q' =
              (\<lambda>ct. if io_error c \<noteq> 0 \<and> ZIO_FLAG_DONT_PROPAGATE \<notin> io_flags c \<and>
                        ct = io_child_type c
                     then zio_worst_error en (io_child_error q ct) (io_error c)
                     else io_child_error q ct)"
        using q(3) unfolding c1(2) c1(3) c1(4) .
      from a q(2) c show ?thesis by blast
    qed
  qed
  from unf g1 g2 g3 show ?case by blast
qed

lemma done_errors_inherits:
  assumes "io_error z = 0"
  shows "io_error (zio_done_errors en env z) = inherited_error en env z"
proof -
  define z1 where "z1 = zio_inherit_child_errors
              (zio_inherit_child_errors
                 (zio_inherit_child_errors z ZIO_CHILD_VDEV) ZIO_CHILD_GANG) ZIO_CHILD_DDT"
  have e1: "io_error z1 =
     (if io_child_error z ZIO_CHILD_VDEV \<noteq> 0 then io_child_error z ZIO_CHILD_VDEV
      else if io_child_error z ZIO_CHILD_GANG \<noteq> 0 then io_child_error z ZIO_CHILD_GANG
      else io_child_error z ZIO_CHILD_DDT)"
    unfolding z1_def by (rule inherit_three[OF assms(1)])
  have c1: "io_child_error z1 = io_child_error z" by (simp add: z1_def)
  define z2 where "z2 = zio_done_pop_transforms en env z1"
  have e2: "io_error z2 = (if io_error z1 = 0 \<and> decompress_fails env then EIO en else io_error z1)"
    and c2: "io_child_error z2 = io_child_error z1"
    by (simp_all add: z2_def zio_done_pop_transforms_def)
  define z3 where "z3 = zio_done_decide en env z2"
  have e3: "io_error z3 = io_error z2" and c3: "io_child_error z3 = io_child_error z2"
    by (simp_all add: z3_def)
  have "zio_done_errors en env z = zio_inherit_child_errors z3 ZIO_CHILD_LOGICAL"
    by (simp add: zio_done_errors_def z1_def[symmetric] z2_def[symmetric] z3_def)
  then have "io_error (zio_done_errors en env z) =
      (if io_child_error z3 ZIO_CHILD_LOGICAL \<noteq> 0 \<and> io_error z3 = 0
       then io_child_error z3 ZIO_CHILD_LOGICAL else io_error z3)"
    by (simp add: zio_inherit_child_errors_def)
  then show ?thesis unfolding e3 c3 e2 c2 e1 c1 inherited_error_def by auto
qed

lemma zios_done_finish: "q \<noteq> i \<Longrightarrow> zios (done_finish w i) q = zios w q"
  by (simp add: done_finish_def log_event_def split: option.splits)

lemma zios_done_callback:
  "zios (done_callback w i z) = (zios w)(i \<mapsto> z\<lparr> io_state := (io_state z)(ZIO_WAIT_DONE := True) \<rparr>)"
  by (simp add: done_callback_def log_event_def)

lemma zio_done_completes:
  assumes "zios w cio = Some c" "\<not> fst (zio_done_wait c)"
    "zio_done_frees (zio_done_errors en env c) = Some frees"
    "io_reexecute (zio_done_errors en env c) = {}"
  shows "zio_done en env exec w cio =
         map_option (Pair True)
           (zio_done_complete en exec (w\<lparr> trace := trace w @ frees \<rparr>) cio
              ((zio_done_errors en env c)\<lparr> io_gang_tree := None \<rparr>))"
  using assms zio_done_wait_False[OF assms(2)]
  by (simp add: zio_done_def Let_def)

text \<open>
  C1.  When a child with a nonzero error and without the do-not-propagate flag
  notifies a parent (\<open>zio_notify_parent\<close>), the parent's record for the child's
  type becomes \<open>zio_worst_error\<close> of what was recorded and the child's error:
  one of the two, of the higher rank in the order 0, ENXIO, ECKSUM, EIO, other;
  the records of the other child types stay.  A request that completes its done
  stage does this to each of its parents: for parents that are distinct requests
  other than the child and not stalled on the done count of the child's type
  (a parent that is runs its own pipeline on the spot), the done stage returns
  and leaves each parent with that record.  In its done stage a request whose own
  error is zero does not simply take a recorded error: it takes the first record
  that is not zero in the order vdev, gang, ddt; if there is none, \<open>EIO\<close> when
  \<open>zio_pop_transforms\<close> fails a decompression; only otherwise the record of its
  logical children (\<open>inherited_error\<close>).
\<close>

theorem child_error_recorded_and_inherited:
  assumes "distinct [0, ENXIO en, ECKSUM en, EIO en]"
    and "zios w cio = Some c"
    and "\<not> fst (zio_done_wait c)"
    and "zio_done_frees (zio_done_errors en env c) \<noteq> None"
    and "io_reexecute (zio_done_errors en env c) = {}"
    and "io_error (zio_done_errors en env c) \<noteq> 0"
    and "ZIO_FLAG_DONT_PROPAGATE \<notin> io_flags c"
    and "distinct (map zl_parent (io_parent_list c))"
    and "cio \<notin> zl_parent ` set (io_parent_list c)"
    and "\<forall>zl \<in> set (io_parent_list c). \<exists>p. zios w (zl_parent zl) = Some p \<and>
           io_stall p \<noteq> Some (io_child_type c, ZIO_WAIT_DONE)"
  shows "(\<forall>p z wt. io_error z \<noteq> 0 \<and> ZIO_FLAG_DONT_PROPAGATE \<notin> io_flags z \<longrightarrow>
            io_child_error (fst (zio_notify_parent en p z wt)) (io_child_type z) =
              zio_worst_error en (io_child_error p (io_child_type z)) (io_error z) \<and>
            io_child_error (fst (zio_notify_parent en p z wt)) (io_child_type z) \<in>
              {io_child_error p (io_child_type z), io_error z} \<and>
            spec_error_rank en (io_child_error (fst (zio_notify_parent en p z wt)) (io_child_type z)) =
              max (spec_error_rank en (io_child_error p (io_child_type z)))
                  (spec_error_rank en (io_error z)) \<and>
            (\<forall>ct. ct \<noteq> io_child_type z \<longrightarrow>
               io_child_error (fst (zio_notify_parent en p z wt)) ct = io_child_error p ct)) \<and>
         (\<exists>w'. zio_done en env exec w cio = Some (True, w') \<and>
            (\<forall>zl \<in> set (io_parent_list c). \<exists>p p'.
               zios w (zl_parent zl) = Some p \<and> zios w' (zl_parent zl) = Some p' \<and>
               io_child_error p' (io_child_type c) =
                 zio_worst_error en (io_child_error p (io_child_type c))
                   (io_error (zio_done_errors en env c)) \<and>
               (\<forall>ct. ct \<noteq> io_child_type c \<longrightarrow> io_child_error p' ct = io_child_error p ct))) \<and>
         (\<forall>z. io_error z = 0 \<longrightarrow> io_error (zio_done_errors en env z) = inherited_error en env z)"
proof -
  have part1: "\<forall>p z wt. io_error z \<noteq> 0 \<and> ZIO_FLAG_DONT_PROPAGATE \<notin> io_flags z \<longrightarrow>
            io_child_error (fst (zio_notify_parent en p z wt)) (io_child_type z) =
              zio_worst_error en (io_child_error p (io_child_type z)) (io_error z) \<and>
            io_child_error (fst (zio_notify_parent en p z wt)) (io_child_type z) \<in>
              {io_child_error p (io_child_type z), io_error z} \<and>
            spec_error_rank en (io_child_error (fst (zio_notify_parent en p z wt)) (io_child_type z)) =
              max (spec_error_rank en (io_child_error p (io_child_type z)))
                  (spec_error_rank en (io_error z)) \<and>
            (\<forall>ct. ct \<noteq> io_child_type z \<longrightarrow>
               io_child_error (fst (zio_notify_parent en p z wt)) ct = io_child_error p ct)"
  proof (intro allI impI)
    fix p z :: zio and wt :: zio_wait_type
    assume a: "io_error z \<noteq> 0 \<and> ZIO_FLAG_DONT_PROPAGATE \<notin> io_flags z"
    have e: "io_child_error (fst (zio_notify_parent en p z wt)) (io_child_type z) =
              zio_worst_error en (io_child_error p (io_child_type z)) (io_error z)"
      using a by (simp add: notify_parent_child_error)
    have o: "\<forall>ct. ct \<noteq> io_child_type z \<longrightarrow>
               io_child_error (fst (zio_notify_parent en p z wt)) ct = io_child_error p ct"
      by (simp add: notify_parent_child_error)
    from worst_error_spec[OF assms(1), of "io_child_error p (io_child_type z)" "io_error z"] e o
    show "io_child_error (fst (zio_notify_parent en p z wt)) (io_child_type z) =
              zio_worst_error en (io_child_error p (io_child_type z)) (io_error z) \<and>
            io_child_error (fst (zio_notify_parent en p z wt)) (io_child_type z) \<in>
              {io_child_error p (io_child_type z), io_error z} \<and>
            spec_error_rank en (io_child_error (fst (zio_notify_parent en p z wt)) (io_child_type z)) =
              max (spec_error_rank en (io_child_error p (io_child_type z)))
                  (spec_error_rank en (io_error z)) \<and>
            (\<forall>ct. ct \<noteq> io_child_type z \<longrightarrow>
               io_child_error (fst (zio_notify_parent en p z wt)) ct = io_child_error p ct)"
      by simp
  qed
  obtain frees where f: "zio_done_frees (zio_done_errors en env c) = Some frees"
    using assms(4) by auto
  define c5 where "c5 = (zio_done_errors en env c)\<lparr> io_gang_tree := None \<rparr>"
  define c7 where "c7 = c5\<lparr> io_state := (io_state c5)(ZIO_WAIT_DONE := True) \<rparr>"
  define w1 where "w1 = w\<lparr> trace := trace w @ frees \<rparr>"
  define w3 where "w3 = done_callback w1 cio c5"
  have z3: "zios w3 = (zios w)(cio \<mapsto> c7)" by (simp add: w3_def w1_def zios_done_callback c7_def)
  have c7p: "io_parent_list c7 = io_parent_list c" "io_error c7 = io_error (zio_done_errors en env c)"
    "io_flags c7 = io_flags c" "io_child_type c7 = io_child_type c"
    "io_parent_list c5 = io_parent_list c"
    by (simp_all add: c7_def c5_def)
  have dn: "zio_done en env exec w cio = map_option (Pair True) (zio_done_complete en exec w1 cio c5)"
    unfolding w1_def c5_def by (rule zio_done_completes[OF assms(2) assms(3) f assms(5)])
  have pne: "\<And>zl. zl \<in> set (io_parent_list c) \<Longrightarrow> zl_parent zl \<noteq> cio"
    using assms(9) by blast
  have ex3: "\<forall>zl \<in> set (io_parent_list c). \<exists>p. zios w3 (zl_parent zl) = Some p \<and>
           io_stall p \<noteq> Some (io_child_type c7, ZIO_WAIT_DONE)"
    using assms(10) pne by (simp add: z3 c7p)
  have c3: "zios w3 cio = Some c7" by (simp add: z3)
  from notify_all_effect[OF c3 assms(8) assms(9) ex3, of en exec]
  obtain w4 where r: "done_notify_all en exec w3 cio (io_parent_list c) = Some w4"
    and eff: "\<forall>zl \<in> set (io_parent_list c). \<exists>p p'. zios w3 (zl_parent zl) = Some p \<and>
            zios w4 (zl_parent zl) = Some p' \<and>
            io_child_error p' =
              (\<lambda>ct. if io_error c7 \<noteq> 0 \<and> ZIO_FLAG_DONT_PROPAGATE \<notin> io_flags c7 \<and>
                        ct = io_child_type c7
                     then zio_worst_error en (io_child_error p ct) (io_error c7)
                     else io_child_error p ct)"
    by blast
  have res: "zio_done en env exec w cio = Some (True, done_finish w4 cio)"
    unfolding dn zio_done_complete_def w3_def[symmetric] c7p(5) using r by simp
  have part2: "\<forall>zl \<in> set (io_parent_list c). \<exists>p p'.
               zios w (zl_parent zl) = Some p \<and> zios (done_finish w4 cio) (zl_parent zl) = Some p' \<and>
               io_child_error p' (io_child_type c) =
                 zio_worst_error en (io_child_error p (io_child_type c))
                   (io_error (zio_done_errors en env c)) \<and>
               (\<forall>ct. ct \<noteq> io_child_type c \<longrightarrow> io_child_error p' ct = io_child_error p ct)"
  proof
    fix zl assume zl: "zl \<in> set (io_parent_list c)"
    from eff zl obtain p p' where pp: "zios w3 (zl_parent zl) = Some p"
      "zios w4 (zl_parent zl) = Some p'"
      "io_child_error p' =
              (\<lambda>ct. if io_error c7 \<noteq> 0 \<and> ZIO_FLAG_DONT_PROPAGATE \<notin> io_flags c7 \<and>
                        ct = io_child_type c7
                     then zio_worst_error en (io_child_error p ct) (io_error c7)
                     else io_child_error p ct)"
      by blast
    have a: "zios w (zl_parent zl) = Some p" using pp(1) pne[OF zl] by (simp add: z3)
    have b: "zios (done_finish w4 cio) (zl_parent zl) = Some p'"
      using pp(2) zios_done_finish[OF pne[OF zl]] by simp
    have ce: "io_child_error p' (io_child_type c) =
              zio_worst_error en (io_child_error p (io_child_type c))
                (io_error (zio_done_errors en env c))"
      using pp(3) assms(6) assms(7) c7p by simp
    have oth: "\<forall>ct. ct \<noteq> io_child_type c \<longrightarrow> io_child_error p' ct = io_child_error p ct"
      using pp(3) c7p by simp
    from a b ce oth
    show "\<exists>p p'.
               zios w (zl_parent zl) = Some p \<and> zios (done_finish w4 cio) (zl_parent zl) = Some p' \<and>
               io_child_error p' (io_child_type c) =
                 zio_worst_error en (io_child_error p (io_child_type c))
                   (io_error (zio_done_errors en env c)) \<and>
               (\<forall>ct. ct \<noteq> io_child_type c \<longrightarrow> io_child_error p' ct = io_child_error p ct)"
      by (intro exI[of _ p] exI[of _ p']) simp
  qed
  have part3: "\<forall>z. io_error z = 0 \<longrightarrow> io_error (zio_done_errors en env z) = inherited_error en env z"
    using done_errors_inherits by blast
  from part1 res part2 part3 show ?thesis by blast
qed

lemma example_world_child: "zios example_world 2 = Some linked_child"
  by (simp add: example_world_def zio_add_child_def upd_zio_def log_event_def Let_def
        linked_child_def example_child_def example_parent_def zio_zero_def empty_world_def)

lemma example_world_parent:
  "\<exists>p. zios example_world 1 = Some p \<and> io_stall p = None \<and>
       io_child_error p ZIO_CHILD_LOGICAL = 122"
  by (simp add: example_world_def zio_add_child_def upd_zio_def log_event_def Let_def
        example_child_def example_parent_def zio_zero_def empty_world_def)

theorem child_error_recorded_and_inherited_witness:
  "distinct [0, ENXIO freebsd_errnos, ECKSUM freebsd_errnos, EIO freebsd_errnos] \<and>
   zios example_world 2 = Some linked_child \<and>
   io_error (zio_done_errors freebsd_errnos example_env linked_child) = 5 \<and>
   ZIO_FLAG_DONT_PROPAGATE \<notin> io_flags linked_child \<and>
   (\<exists>p w' p'. zios example_world 1 = Some p \<and> io_stall p = None \<and>
      io_child_error p ZIO_CHILD_LOGICAL = 122 \<and>
      zio_done freebsd_errnos example_env (plain_run 1) example_world 2 = Some (True, w') \<and>
      zios w' 1 = Some p' \<and> io_child_error p' ZIO_CHILD_LOGICAL = 5)"
proof -
  let ?zl = "\<lparr> zl_id = 0, zl_parent = 1, zl_child = 2 \<rparr>"
  have pl: "io_parent_list linked_child = [?zl]" by (simp add: linked_child_def)
  have ct: "io_child_type linked_child = ZIO_CHILD_LOGICAL"
    by (simp add: linked_child_def example_child_def)
  have er: "zio_done_errors freebsd_errnos example_env linked_child = linked_child"
    by (simp add: zio_done_errors_def zio_done_decide_def zio_done_pop_transforms_def
          zio_done_reexecute_bits_def Let_def IO_IS_ALLOCATING_def
          zio_inherit_child_errors_def linked_child_def
          example_child_def zio_zero_def example_env_def freebsd_errnos_def)
  have ie: "io_error linked_child = 5" by (simp add: linked_child_def example_child_def)
  have h1: "distinct [0, ENXIO freebsd_errnos, ECKSUM freebsd_errnos, EIO freebsd_errnos]"
    by (simp add: freebsd_errnos_def)
  have h2: "zios example_world 2 = Some linked_child" by (rule example_world_child)
  have h3: "\<not> fst (zio_done_wait linked_child)"
    by (simp add: zio_done_wait_def zio_wait_for_children_def linked_child_def
          example_child_def zio_zero_def)
  have h4: "zio_done_frees (zio_done_errors freebsd_errnos example_env linked_child) \<noteq> None"
    unfolding er
    by (simp add: zio_done_frees_def zio_done_unallocates_def IO_IS_ALLOCATING_def
          linked_child_def example_child_def zio_zero_def)
  have h5: "io_reexecute (zio_done_errors freebsd_errnos example_env linked_child) = {}"
    unfolding er by (simp add: linked_child_def example_child_def zio_zero_def)
  have h6: "io_error (zio_done_errors freebsd_errnos example_env linked_child) \<noteq> 0"
    unfolding er ie by simp
  have h7: "ZIO_FLAG_DONT_PROPAGATE \<notin> io_flags linked_child"
    by (simp add: linked_child_def example_child_def)
  have h8: "distinct (map zl_parent (io_parent_list linked_child))" by (simp add: pl)
  have h9: "2 \<notin> zl_parent ` set (io_parent_list linked_child)" by (simp add: pl)
  have h10: "\<forall>zl \<in> set (io_parent_list linked_child).
       \<exists>p. zios example_world (zl_parent zl) = Some p \<and>
           io_stall p \<noteq> Some (io_child_type linked_child, ZIO_WAIT_DONE)"
    using example_world_parent by (auto simp: pl)
  note T = child_error_recorded_and_inherited [OF h1 h2 h3 h4 h5 h6 h7 h8 h9 h10,
      of "plain_run 1", THEN conjunct2, THEN conjunct1]
  then obtain w' where d: "zio_done freebsd_errnos example_env (plain_run 1) example_world 2
        = Some (True, w')"
    and a: "\<forall>zl \<in> set (io_parent_list linked_child). \<exists>p p'.
               zios example_world (zl_parent zl) = Some p \<and> zios w' (zl_parent zl) = Some p' \<and>
               io_child_error p' (io_child_type linked_child) =
                 zio_worst_error freebsd_errnos (io_child_error p (io_child_type linked_child))
                   (io_error (zio_done_errors freebsd_errnos example_env linked_child)) \<and>
               (\<forall>ct. ct \<noteq> io_child_type linked_child \<longrightarrow>
                  io_child_error p' ct = io_child_error p ct)"
    by blast
  have m: "?zl \<in> set (io_parent_list linked_child)" by (simp add: pl)
  from a[rule_format, OF m]
  have "\<exists>p p'. zios example_world 1 = Some p \<and> zios w' 1 = Some p' \<and>
          io_child_error p' ZIO_CHILD_LOGICAL =
            zio_worst_error freebsd_errnos (io_child_error p ZIO_CHILD_LOGICAL) 5"
    unfolding er ie ct by (elim exE conjE, intro exI conjI) simp_all
  then obtain p p' where pp: "zios example_world 1 = Some p" "zios w' 1 = Some p'"
    "io_child_error p' ZIO_CHILD_LOGICAL =
       zio_worst_error freebsd_errnos (io_child_error p ZIO_CHILD_LOGICAL) 5" by blast
  from example_world_parent pp(1)
  have p122: "io_child_error p ZIO_CHILD_LOGICAL = 122" and st: "io_stall p = None" by auto
  have "zio_worst_error freebsd_errnos 122 5 = 5"
    by (simp add: zio_worst_error_def zio_error_rank_def freebsd_errnos_def)
  with pp p122 have "io_child_error p' ZIO_CHILD_LOGICAL = 5" by simp
  with h1 h2 h7 er ie pp(1) pp(2) p122 st d show ?thesis by simp
qed

text \<open>
  A request with no error of its own, the error 5 recorded for its logical
  children and the error 6 for its vdev children leaves \<open>zio_done\<close>'s error
  computation with 6, not with the record of its logical children.
\<close>

theorem logical_record_not_inherited_counterexample:
  "io_error two_record_parent = 0 \<and>
   io_child_error two_record_parent ZIO_CHILD_LOGICAL = 5 \<and>
   io_error (zio_done_errors freebsd_errnos example_env two_record_parent) = 6"
  by (simp add: zio_done_errors_def zio_done_decide_def zio_done_pop_transforms_def
        zio_done_reexecute_bits_def Let_def IO_IS_ALLOCATING_def
        zio_inherit_child_errors_def two_record_parent_def zio_zero_def
        example_env_def freebsd_errnos_def)

end
